theory Spec2Isabelle
  imports
    Complex_Main
    "HOL-Library.Multiset"
    "HOL-Library.Char_ord"
    "HOL-Library.List_Lexorder"
begin

section \<open>Python values and library functions\<close>

text \<open>
  The two scripts, \<^verbatim>\<open>analyze_csv.py\<close> (the strict variant) and
  \<^verbatim>\<open>analyze_csv_new.py\<close> (the defensive variant), are straight-line programs: one
  loop over the rows of a CSV file that fills a handful of accumulators, followed by a
  sequence of \<^verbatim>\<open>print\<close> statements. The model follows that shape. The rows are the
  lists of fields that \<^verbatim>\<open>csv.reader\<close> yields; the accumulators are a record; an
  exception is a value of type \<open>error\<close>.
\<close>

datatype error =
  ValueError | IndexError | KeyError | ZeroDivisionError | TypeError | StopIteration

text \<open>
  A Python \<^verbatim>\<open>float\<close> is a finite double, an infinity, or NaN. A finite double is
  represented by its exact value, so that comparing two of them is comparing reals;
  \<^verbatim>\<open>-0.0\<close> and \<^verbatim>\<open>0.0\<close> are both \<open>Fin 0\<close>, and indeed compare equal in Python. The
  integer \<^verbatim>\<open>0\<close> that \<^verbatim>\<open>max_spread\<close> starts from compares like \<^verbatim>\<open>0.0\<close>. The
  rounding of float arithmetic is not modelled: the only arithmetic the scripts do on floats
  is the mean and the percentages, which are left to the runtime below.
\<close>

datatype pyfloat = NInf | Fin real | PInf | NaN

text \<open>\<^verbatim>\<open>x < y\<close> on floats: every comparison with NaN is false.\<close>

fun fl_lt :: "pyfloat \<Rightarrow> pyfloat \<Rightarrow> bool" where
  "fl_lt NaN _ = False"
| "fl_lt _ NaN = False"
| "fl_lt _ NInf = False"
| "fl_lt NInf _ = True"
| "fl_lt PInf _ = False"
| "fl_lt (Fin a) (Fin b) = (a < b)"
| "fl_lt (Fin a) PInf = True"

text \<open>\<^verbatim>\<open>x <= y\<close>, \<^verbatim>\<open>x > y\<close> and \<^verbatim>\<open>x >= y\<close>.\<close>

definition fl_le :: "pyfloat \<Rightarrow> pyfloat \<Rightarrow> bool" where
  "fl_le x y = (fl_lt x y \<or> (x = y \<and> x \<noteq> NaN))"

definition fl_gt :: "pyfloat \<Rightarrow> pyfloat \<Rightarrow> bool" where
  "fl_gt x y = fl_lt y x"

definition fl_ge :: "pyfloat \<Rightarrow> pyfloat \<Rightarrow> bool" where
  "fl_ge x y = fl_le y x"

text \<open>The float literals of the scripts, as the doubles they denote.\<close>

definition lit_0_1 :: pyfloat where
  "lit_0_1 = Fin (3602879701896397 / 36028797018963968)"

definition lit_0_17 :: pyfloat where
  "lit_0_17 = Fin (6124895493223875 / 36028797018963968)"

definition lit_0_2 :: pyfloat where
  "lit_0_2 = Fin (3602879701896397 / 18014398509481984)"

definition lit_0_3 :: pyfloat where
  "lit_0_3 = Fin (5404319552844595 / 18014398509481984)"

definition lit_0_4 :: pyfloat where
  "lit_0_4 = Fin (3602879701896397 / 9007199254740992)"

definition lit_0_5 :: pyfloat where
  "lit_0_5 = Fin (1 / 2)"

text \<open>
  \<^verbatim>\<open>datetime\<close>: a naive value is a wall-clock time, an aware one an instant, both counted
  in microseconds. Subtracting a naive from an aware one (or the reverse) raises TypeError.
\<close>

datatype datetime = Naive int | Aware int

fun dt_sub :: "datetime \<Rightarrow> datetime \<Rightarrow> error + int" where
  "dt_sub (Naive b) (Naive a) = Inr (b - a)"
| "dt_sub (Aware b) (Aware a) = Inr (b - a)"
| "dt_sub _ _ = Inl TypeError"

definition total_seconds :: "int \<Rightarrow> real" where
  "total_seconds us = real_of_int us / 1000000"

text \<open>
  What the interpreter provides and the repository does not define: \<^verbatim>\<open>float(s)\<close> and
  \<^verbatim>\<open>int(s)\<close> on a string (\<open>None\<close> when they raise ValueError),
  \<^verbatim>\<open>datetime.fromisoformat\<close> (\<open>None\<close> when it raises), and the float arithmetic
  \<^verbatim>\<open>sum(xs) / len(xs)\<close> on a non-empty list. Every definition below takes them as a
  parameter, and every theorem holds whatever they are.
\<close>

record runtime =
  py_float :: "string \<Rightarrow> pyfloat option"
  py_int :: "string \<Rightarrow> int option"
  fromisoformat :: "string \<Rightarrow> datetime option"
  py_mean :: "pyfloat list \<Rightarrow> pyfloat"

definition to_float :: "runtime \<Rightarrow> string \<Rightarrow> error + pyfloat" where
  "to_float rt s = (case py_float rt s of None \<Rightarrow> Inl ValueError | Some x \<Rightarrow> Inr x)"

definition to_int :: "runtime \<Rightarrow> string \<Rightarrow> error + int" where
  "to_int rt s = (case py_int rt s of None \<Rightarrow> Inl ValueError | Some n \<Rightarrow> Inr n)"

definition and_then :: "error + 'a \<Rightarrow> ('a \<Rightarrow> error + 'b) \<Rightarrow> error + 'b" where
  "and_then m f = (case m of Inl e \<Rightarrow> Inl e | Inr x \<Rightarrow> f x)"

text \<open>\<^verbatim>\<open>xs[i]\<close> for a non-negative constant \<open>i\<close>.\<close>

definition item :: "'a list \<Rightarrow> nat \<Rightarrow> error + 'a" where
  "item xs i = (if i < length xs then Inr (xs ! i) else Inl IndexError)"

subsection \<open>Strings\<close>

text \<open>
  A string is a list of characters, each a code point below 256. \<^verbatim>\<open>str.strip()\<close>
  removes the white space of \<^verbatim>\<open>str.isspace\<close> from both ends.
\<close>

definition isspace :: "char \<Rightarrow> bool" where
  "isspace c =
     (let n = (of_char c :: nat)
      in (9 \<le> n \<and> n \<le> 13) \<or> (28 \<le> n \<and> n \<le> 32) \<or> n = 133 \<or> n = 160)"

definition strip :: "string \<Rightarrow> string" where
  "strip s = rev (dropWhile isspace (rev (dropWhile isspace s)))"

text \<open>\<^verbatim>\<open>s.replace('Z', '+00:00')\<close> replaces every occurrence.\<close>

definition replace_Z :: "string \<Rightarrow> string" where
  "replace_Z s = concat (map (\<lambda>c. if c = CHR ''Z'' then ''+00:00'' else [c]) s)"

text \<open>\<^verbatim>\<open>s.split(c)\<close> for a one-character separator: never an empty list.\<close>

fun split_str :: "char \<Rightarrow> string \<Rightarrow> string list" where
  "split_str c [] = [[]]"
| "split_str c (x # xs) =
     (if x = c then [] # split_str c xs
      else (case split_str c xs of [] \<Rightarrow> [[x]] | p # ps \<Rightarrow> (x # p) # ps))"

subsection \<open>Sorting, minimum and maximum\<close>

text \<open>
  \<^verbatim>\<open>sorted\<close> is stable and compares keys with \<^verbatim>\<open><\<close> only. When no key is NaN the
  keys are totally preordered and the result is the one stable arrangement, whatever the
  algorithm; insertion is the simplest that computes it. With \<^verbatim>\<open>reverse=True\<close>
  CPython reverses the list, sorts it ascending and reverses the result, which keeps equal
  keys in their original order.
\<close>

fun insort_by :: "('a \<Rightarrow> pyfloat) \<Rightarrow> 'a \<Rightarrow> 'a list \<Rightarrow> 'a list" where
  "insort_by k x [] = [x]"
| "insort_by k x (y # ys) =
     (if fl_lt (k y) (k x) then y # insort_by k x ys else x # y # ys)"

fun py_sorted :: "('a \<Rightarrow> pyfloat) \<Rightarrow> 'a list \<Rightarrow> 'a list" where
  "py_sorted k [] = []"
| "py_sorted k (x # xs) = insort_by k x (py_sorted k xs)"

definition py_sorted_reverse :: "('a \<Rightarrow> pyfloat) \<Rightarrow> 'a list \<Rightarrow> 'a list" where
  "py_sorted_reverse k xs = rev (py_sorted k (rev xs))"

text \<open>
  \<^verbatim>\<open>min\<close> and \<^verbatim>\<open>max\<close> of a non-empty list, given as its head and tail: the first
  element is kept until a later one is strictly smaller (larger).
\<close>

definition py_min :: "pyfloat \<Rightarrow> pyfloat list \<Rightarrow> pyfloat" where
  "py_min x xs = foldl (\<lambda>m y. if fl_lt y m then y else m) x xs"

definition py_max :: "pyfloat \<Rightarrow> pyfloat list \<Rightarrow> pyfloat" where
  "py_max x xs = foldl (\<lambda>m y. if fl_gt y m then y else m) x xs"

subsection \<open>Dictionaries\<close>

text \<open>
  A \<^verbatim>\<open>defaultdict\<close> is an association list in insertion order, which is the order
  \<^verbatim>\<open>items()\<close> yields. \<open>incr\<close> is \<^verbatim>\<open>d[k] += 1\<close> on a \<^verbatim>\<open>defaultdict(int)\<close>,
  \<open>dict_append\<close> is \<^verbatim>\<open>d[k].append(v)\<close> on a \<^verbatim>\<open>defaultdict(list)\<close>.
\<close>

fun incr :: "string \<Rightarrow> (string \<times> nat) list \<Rightarrow> (string \<times> nat) list" where
  "incr k [] = [(k, 1)]"
| "incr k ((k', c) # d) = (if k = k' then (k', c + 1) # d else (k', c) # incr k d)"

fun dict_append :: "string \<Rightarrow> 'a \<Rightarrow> (string \<times> 'a list) list \<Rightarrow> (string \<times> 'a list) list" where
  "dict_append k v [] = [(k, [v])]"
| "dict_append k v ((k', vs) # d) =
     (if k = k' then (k', vs @ [v]) # d else (k', vs) # dict_append k v d)"


section \<open>The accumulators and the read pass\<close>

type_synonym row = "string list"

text \<open>
  The tuples appended to \<^verbatim>\<open>time_spreads\<close>: in the first script
  \<^verbatim>\<open>(timestamp, spread, pair, reject_reason, eth_price)\<close>, in the second one also
  \<^verbatim>\<open>gas_gwei\<close> and \<^verbatim>\<open>has_opp\<close>.
\<close>

type_synonym entry = "string \<times> pyfloat \<times> string \<times> string \<times> pyfloat"

type_synonym entry_new = "string \<times> pyfloat \<times> string \<times> string \<times> pyfloat \<times> pyfloat \<times> int"

definition entry_spread :: "entry \<Rightarrow> pyfloat" where
  "entry_spread x = (case x of (ts, spread, pair, reject, eth) \<Rightarrow> spread)"

definition entry_spread_new :: "entry_new \<Rightarrow> pyfloat" where
  "entry_spread_new x = (case x of (ts, spread, pair, reject, eth, gas, has_opp) \<Rightarrow> spread)"

text \<open>The dictionaries appended to \<^verbatim>\<open>high_spread_cases\<close> (second script).\<close>

datatype high_spread_case =
  HighSpreadCase
    (case_timestamp: string) (case_pair: string) (case_spread: pyfloat)
    (case_reject_reason: string) (case_eth_price: pyfloat) (case_gas_gwei: pyfloat)

text \<open>
  The module-level variables of the first script, and the two more of the second one.
\<close>

record 't state =
  spreads :: "pyfloat list"
  eth_prices :: "pyfloat list"
  opportunities :: nat
  total_scans :: nat
  reject_reasons :: "(string \<times> nat) list"
  pair_spreads :: "(string \<times> pyfloat list) list"
  max_spread_entry :: "row option"
  max_spread :: pyfloat
  time_spreads :: "'t list"

record 't state_new = "'t state" +
  gas_prices :: "pyfloat list"
  high_spread_cases :: "high_spread_case list"

definition init :: "entry state" where
  "init =
     \<lparr>spreads = [], eth_prices = [], opportunities = 0, total_scans = 0,
      reject_reasons = [], pair_spreads = [], max_spread_entry = None,
      max_spread = Fin 0, time_spreads = []\<rparr>"

definition init_new :: "entry_new state_new" where
  "init_new =
     \<lparr>spreads = [], eth_prices = [], opportunities = 0, total_scans = 0,
      reject_reasons = [], pair_spreads = [], max_spread_entry = None,
      max_spread = Fin 0, time_spreads = [], gas_prices = [], high_spread_cases = []\<rparr>"

subsection \<open>First script: \<^verbatim>\<open>analyze_csv.py\<close>, lines 18 to 47\<close>

text \<open>
  Lines 27 to 32: the conversions of one row of at least 29 fields. A failing conversion
  raises ValueError, and nothing catches it. The result is the tuple that goes to
  \<^verbatim>\<open>time_spreads\<close>, and \<^verbatim>\<open>has_opp\<close>.
\<close>

definition convert :: "runtime \<Rightarrow> row \<Rightarrow> error + (entry \<times> int)" where
  "convert rt row =
     (let timestamp = row ! 0;
          pair = row ! 2
      in and_then (to_float rt (row ! 3)) (\<lambda>spread.
         and_then (to_int rt (row ! 4)) (\<lambda>has_opp.
         let reject_reason = (if row ! 5 \<noteq> [] then strip (row ! 5) else [])
         in and_then (to_float rt (row ! 27)) (\<lambda>eth_price.
         Inr ((timestamp, spread, pair, reject_reason, eth_price), has_opp)))))"

text \<open>Lines 34 to 47: the updates.\<close>

definition update :: "entry state \<Rightarrow> row \<Rightarrow> entry \<times> int \<Rightarrow> entry state" where
  "update st row r =
     (case r of ((timestamp, spread, pair, reject_reason, eth_price), has_opp) \<Rightarrow>
        st\<lparr>spreads := spreads st @ [spread],
           eth_prices := eth_prices st @ [eth_price],
           pair_spreads := dict_append pair spread (pair_spreads st),
           time_spreads :=
             time_spreads st @ [(timestamp, spread, pair, reject_reason, eth_price)],
           opportunities :=
             (if has_opp = 1 then opportunities st + 1 else opportunities st),
           reject_reasons :=
             (if reject_reason \<noteq> [] then incr reject_reason (reject_reasons st)
              else reject_reasons st),
           max_spread := (if fl_gt spread (max_spread st) then spread else max_spread st),
           max_spread_entry :=
             (if fl_gt spread (max_spread st) then Some row else max_spread_entry st)\<rparr>)"

text \<open>
  The body of the loop: a row of fewer than 29 fields is passed over; any other row is
  counted, converted and aggregated.
\<close>

definition process_row :: "runtime \<Rightarrow> entry state \<Rightarrow> row \<Rightarrow> error + entry state" where
  "process_row rt st0 row =
     (if length row < 29 then Inr st0
      else
        let st = st0\<lparr>total_scans := total_scans st0 + 1\<rparr>
        in and_then (convert rt row) (\<lambda>r. Inr (update st row r)))"

fun read_rows :: "runtime \<Rightarrow> entry state \<Rightarrow> row list \<Rightarrow> error + entry state" where
  "read_rows rt st [] = Inr st"
| "read_rows rt st (row # rows) =
     (case process_row rt st row of
        Inl e \<Rightarrow> Inl e
      | Inr st' \<Rightarrow> read_rows rt st' rows)"

subsection \<open>Second script: \<^verbatim>\<open>analyze_csv_new.py\<close>, lines 27 to 70\<close>

text \<open>
  Lines 34 to 41, the first half of the \<^verbatim>\<open>try\<close>: the conversions, each skipped for
  an empty field, which then counts as 0. \<^verbatim>\<open>scan_num\<close> is converted and never used.
\<close>

definition convert_new :: "runtime \<Rightarrow> row \<Rightarrow> error + entry_new" where
  "convert_new rt row =
     (let timestamp = row ! 0
      in and_then (if row ! 1 \<noteq> [] then to_int rt (row ! 1) else Inr 0) (\<lambda>scan_num.
         let pair = row ! 2
         in and_then (if row ! 3 \<noteq> [] then to_float rt (row ! 3) else Inr (Fin 0)) (\<lambda>spread.
         and_then (if row ! 4 \<noteq> [] then to_int rt (row ! 4) else Inr 0) (\<lambda>has_opp.
         let reject_reason =
               (if length row > 5 \<and> row ! 5 \<noteq> [] then strip (row ! 5) else [])
         in and_then
              (if length row > 27 \<and> row ! 27 \<noteq> [] then to_float rt (row ! 27)
               else Inr (Fin 0)) (\<lambda>eth_price.
         and_then
              (if length row > 28 \<and> row ! 28 \<noteq> [] then to_float rt (row ! 28)
               else Inr (Fin 0)) (\<lambda>gas_gwei.
         Inr (timestamp, spread, pair, reject_reason, eth_price, gas_gwei, has_opp)))))))"

text \<open>
  Lines 43 to 68, the second half of the \<^verbatim>\<open>try\<close>: the updates, none of which can
  raise. No update precedes a conversion, so an exception leaves the accumulators as they
  were when the \<^verbatim>\<open>try\<close> was entered.
\<close>

definition update_new :: "entry_new state_new \<Rightarrow> row \<Rightarrow> entry_new \<Rightarrow> entry_new state_new" where
  "update_new st row r =
     (case r of (timestamp, spread, pair, reject_reason, eth_price, gas_gwei, has_opp) \<Rightarrow>
        st\<lparr>spreads := spreads st @ [spread],
           eth_prices := eth_prices st @ [eth_price],
           gas_prices := gas_prices st @ [gas_gwei],
           pair_spreads := dict_append pair spread (pair_spreads st),
           time_spreads :=
             time_spreads st @
               [(timestamp, spread, pair, reject_reason, eth_price, gas_gwei, has_opp)],
           opportunities :=
             (if has_opp = 1 then opportunities st + 1 else opportunities st),
           reject_reasons :=
             (if reject_reason \<noteq> [] then incr reject_reason (reject_reasons st)
              else reject_reasons st),
           high_spread_cases :=
             (if fl_ge spread lit_0_17 \<and> has_opp = 0
              then high_spread_cases st @
                [HighSpreadCase timestamp pair spread reject_reason eth_price gas_gwei]
              else high_spread_cases st),
           max_spread := (if fl_gt spread (max_spread st) then spread else max_spread st),
           max_spread_entry :=
             (if fl_gt spread (max_spread st) then Some row else max_spread_entry st)\<rparr>)"

text \<open>
  The body of the loop: the length check, the count, and the \<^verbatim>\<open>try\<close>, whose handler
  catches ValueError and IndexError and goes on to the next row.
\<close>

definition process_row_new ::
  "runtime \<Rightarrow> entry_new state_new \<Rightarrow> row \<Rightarrow> error + entry_new state_new" where
  "process_row_new rt st0 row =
     (if length row < 29 then Inr st0
      else
        let st = st0\<lparr>total_scans := total_scans st0 + 1\<rparr>
        in case convert_new rt row of
             Inl e \<Rightarrow> (if e = ValueError \<or> e = IndexError then Inr st else Inl e)
           | Inr r \<Rightarrow> Inr (update_new st row r))"

fun read_rows_new ::
  "runtime \<Rightarrow> entry_new state_new \<Rightarrow> row list \<Rightarrow> error + entry_new state_new" where
  "read_rows_new rt st [] = Inr st"
| "read_rows_new rt st (row # rows) =
     (case process_row_new rt st row of
        Inl e \<Rightarrow> Inl e
      | Inr st' \<Rightarrow> read_rows_new rt st' rows)"

section \<open>The statistics\<close>

text \<open>
  \<^verbatim>\<open>sum(xs) / len(xs)\<close>, \<^verbatim>\<open>max(xs)\<close>, \<^verbatim>\<open>min(xs)\<close> and
  \<^verbatim>\<open>sorted(xs)[len(xs) // 2]\<close>, each with the exception it raises on an empty list.
\<close>

definition mean :: "runtime \<Rightarrow> pyfloat list \<Rightarrow> error + pyfloat" where
  "mean rt xs = (if xs = [] then Inl ZeroDivisionError else Inr (py_mean rt xs))"

definition max_of :: "pyfloat list \<Rightarrow> error + pyfloat" where
  "max_of xs = (case xs of [] \<Rightarrow> Inl ValueError | x # xs' \<Rightarrow> Inr (py_max x xs'))"

definition min_of :: "pyfloat list \<Rightarrow> error + pyfloat" where
  "min_of xs = (case xs of [] \<Rightarrow> Inl ValueError | x # xs' \<Rightarrow> Inr (py_min x xs'))"

definition median_spread :: "pyfloat list \<Rightarrow> error + pyfloat" where
  "median_spread xs =
     (let sorted_spreads = py_sorted (\<lambda>s. s) xs
      in item sorted_spreads (length sorted_spreads div 2))"

text \<open>
  The spread statistics \<^verbatim>\<open>(avg_spread, max_spread_val, min_spread_val, median_spread)\<close>
  and the price statistics \<^verbatim>\<open>(avg, max, min)\<close>: unguarded in the first script (lines 50
  to 58), guarded by \<^verbatim>\<open>if spreads:\<close> with a default of 0 in the second (lines 73 to 94).
\<close>

definition spread_stats ::
  "runtime \<Rightarrow> pyfloat list \<Rightarrow> error + (pyfloat \<times> pyfloat \<times> pyfloat \<times> pyfloat)" where
  "spread_stats rt xs =
     and_then (mean rt xs) (\<lambda>avg_spread.
     and_then (max_of xs) (\<lambda>max_spread_val.
     and_then (min_of xs) (\<lambda>min_spread_val.
     and_then (median_spread xs) (\<lambda>median.
     Inr (avg_spread, max_spread_val, min_spread_val, median)))))"

definition price_stats :: "runtime \<Rightarrow> pyfloat list \<Rightarrow> error + (pyfloat \<times> pyfloat \<times> pyfloat)" where
  "price_stats rt xs =
     and_then (mean rt xs) (\<lambda>avg.
     and_then (max_of xs) (\<lambda>max_val.
     and_then (min_of xs) (\<lambda>min_val.
     Inr (avg, max_val, min_val))))"

definition spread_stats_new ::
  "runtime \<Rightarrow> pyfloat list \<Rightarrow> error + (pyfloat \<times> pyfloat \<times> pyfloat \<times> pyfloat)" where
  "spread_stats_new rt xs =
     (if xs \<noteq> [] then spread_stats rt xs else Inr (Fin 0, Fin 0, Fin 0, Fin 0))"

definition price_stats_new ::
  "runtime \<Rightarrow> pyfloat list \<Rightarrow> error + (pyfloat \<times> pyfloat \<times> pyfloat)" where
  "price_stats_new rt xs = (if xs \<noteq> [] then price_stats rt xs else Inr (Fin 0, Fin 0, Fin 0))"

subsection \<open>Duration (second script, lines 97 to 108)\<close>

definition try_hours :: "runtime \<Rightarrow> string \<Rightarrow> string \<Rightarrow> error + real" where
  "try_hours rt first_time last_time =
     (case fromisoformat rt (replace_Z first_time) of
        None \<Rightarrow> Inl ValueError
      | Some first_dt \<Rightarrow>
          (case fromisoformat rt (replace_Z last_time) of
             None \<Rightarrow> Inl ValueError
           | Some last_dt \<Rightarrow>
               and_then (dt_sub last_dt first_dt) (\<lambda>duration.
               Inr (total_seconds duration / 3600))))"

text \<open>The bare \<^verbatim>\<open>except:\<close> turns every exception into 0.\<close>

definition hours :: "runtime \<Rightarrow> entry_new list \<Rightarrow> real" where
  "hours rt ts =
     (if ts \<noteq> [] then
        (let first_time = fst (hd ts); last_time = fst (last ts)
         in case try_hours rt first_time last_time of Inl e \<Rightarrow> 0 | Inr h \<Rightarrow> h)
      else 0)"

subsection \<open>Spread distribution\<close>

type_synonym bucket = "string \<times> pyfloat \<times> pyfloat"

definition spread_ranges :: "bucket list" where
  "spread_ranges =
     [(''< 0.1%'', Fin 0, lit_0_1),
      (''0.1~0.2%'', lit_0_1, lit_0_2),
      (''0.2~0.3%'', lit_0_2, lit_0_3),
      (''0.3~0.4%'', lit_0_3, lit_0_4),
      (''0.4~0.5%'', lit_0_4, lit_0_5),
      (''>= 0.5%'', lit_0_5, Fin 999)]"

definition spread_ranges_new :: "bucket list" where
  "spread_ranges_new =
     [(''< 0.1%'', Fin 0, lit_0_1),
      (''0.1~0.17%'', lit_0_1, lit_0_17),
      (''0.17~0.2%'', lit_0_17, lit_0_2),
      (''0.2~0.3%'', lit_0_2, lit_0_3),
      (''0.3~0.4%'', lit_0_3, lit_0_4),
      (''0.4~0.5%'', lit_0_4, lit_0_5),
      (''>= 0.5%'', lit_0_5, Fin 999)]"

text \<open>\<^verbatim>\<open>counts = {label: 0 for label, _, _ in spread_ranges}\<close>\<close>

definition zero_counts :: "bucket list \<Rightarrow> (string \<rightharpoonup> nat)" where
  "zero_counts ranges = map_of (map (\<lambda>(label, low, high). (label, 0)) ranges)"

text \<open>\<^verbatim>\<open>counts[label] += 1\<close> on a plain dictionary.\<close>

definition dict_incr :: "string \<Rightarrow> (string \<rightharpoonup> nat) \<Rightarrow> error + (string \<rightharpoonup> nat)" where
  "dict_incr k d = (case d k of None \<Rightarrow> Inl KeyError | Some c \<Rightarrow> Inr (d(k \<mapsto> c + 1)))"

text \<open>The inner loop, which leaves at the first bucket that holds the value.\<close>

fun count_spread :: "bucket list \<Rightarrow> (string \<rightharpoonup> nat) \<Rightarrow> pyfloat \<Rightarrow> error + (string \<rightharpoonup> nat)" where
  "count_spread [] counts s = Inr counts"
| "count_spread ((label, low, high) # rs) counts s =
     (if fl_le low s \<and> fl_lt s high then dict_incr label counts
      else count_spread rs counts s)"

text \<open>The outer loop over the spreads.\<close>

fun count_spreads ::
  "bucket list \<Rightarrow> (string \<rightharpoonup> nat) \<Rightarrow> pyfloat list \<Rightarrow> error + (string \<rightharpoonup> nat)" where
  "count_spreads ranges counts [] = Inr counts"
| "count_spreads ranges counts (s # ss) =
     and_then (count_spread ranges counts s) (\<lambda>counts'. count_spreads ranges counts' ss)"

definition distribution :: "bucket list \<Rightarrow> pyfloat list \<Rightarrow> error + (string \<rightharpoonup> nat)" where
  "distribution ranges xs = count_spreads ranges (zero_counts ranges) xs"

subsection \<open>Top spreads\<close>

text \<open>
  \<^verbatim>\<open>sorted(time_spreads, key=lambda x: x[1], reverse=True)[:10]\<close>, and \<^verbatim>\<open>[:20]\<close> in
  the second script.
\<close>

definition sorted_time_spreads :: "entry list \<Rightarrow> entry list" where
  "sorted_time_spreads ts = take 10 (py_sorted_reverse entry_spread ts)"

definition sorted_time_spreads_new :: "entry_new list \<Rightarrow> entry_new list" where
  "sorted_time_spreads_new ts = take 20 (py_sorted_reverse entry_spread_new ts)"

definition sorted_high :: "high_spread_case list \<Rightarrow> high_spread_case list" where
  "sorted_high cs = take 10 (py_sorted_reverse case_spread cs)"


section \<open>The report\<close>

text \<open>
  What a run prints, in order. An item stands for one \<^verbatim>\<open>print\<close> statement, or for a
  run of consecutive ones none of which can raise, and carries the values the statement
  formats: counts, strings and floats as they are, before any rounding to the printed
  number of decimals. Percentages are derived from the counts shown and are not recorded,
  but the division that computes them is, where it can fail. An empty reject reason is
  shown by the scripts as a fixed placeholder text.
\<close>

datatype (plugins only: code) out =
    Title
  | FixedTimeRange
  | TimeRange string string
  | TotalRecords nat
  | ScanCount nat
  | MonitoringHours real
  | OpportunitiesFound nat
  | NoOpportunityRemark
  | OpportunityRate
  | SpreadStats pyfloat pyfloat pyfloat pyfloat
  | EthStats pyfloat pyfloat pyfloat
  | EthVolatility
  | EthRemark
  | GasStats pyfloat pyfloat pyfloat
  | TopCaseTitle
  | TopCasePair string
  | TopCaseSpread string
  | TopCaseTime string
  | TopCaseBuy string pyfloat
  | TopCaseSell string pyfloat
  | TopCaseOpportunity bool
  | TopCaseReject string
  | TopCaseEth pyfloat
  | TopCaseGas pyfloat
  | PairsTitle
  | PairLine string pyfloat pyfloat pyfloat
  | PairLineNew string pyfloat pyfloat pyfloat nat
  | RejectsTitle
  | RejectLine string nat
  | NoExplicitRejects nat nat
  | BelowThreshold int
  | HistTitle nat
  | HistLine string nat
  | TopKTitle
  | TopKLine nat string pyfloat string pyfloat string
  | TopKLineNew nat bool string pyfloat string pyfloat pyfloat string
  | AnomalyTitle nat
  | AnomalyLine nat string pyfloat string pyfloat pyfloat
  | AnomalyReject string
  | Conclusion
  | ConclusionTitle
  | NoOpportunity pyfloat
  | AnomaliesNeedReview nat
  | MostlyBelowThreshold
  | OpportunityFound nat
  | NextSteps bool
  | EndBanner

text \<open>
  A run, or a part of one, yields what it printed and the exception that ended it, if
  one did.
\<close>

type_synonym printed = "out list \<times> error option"

definition say :: "out list \<Rightarrow> printed" where
  "say items = (items, None)"

definition raises :: "error \<Rightarrow> printed" where
  "raises e = ([], Some e)"

definition compute :: "error + 'a \<Rightarrow> ('a \<Rightarrow> printed) \<Rightarrow> printed" where
  "compute m f = (case m of Inl e \<Rightarrow> raises e | Inr x \<Rightarrow> f x)"

text \<open>Parts run one after the other; an exception in one ends the run there.\<close>

fun sections :: "printed list \<Rightarrow> printed" where
  "sections [] = ([], None)"
| "sections (p # ps) =
     (case snd p of
        Some e \<Rightarrow> p
      | None \<Rightarrow> (fst p @ fst (sections ps), snd (sections ps)))"

definition lookup :: "(string \<rightharpoonup> nat) \<Rightarrow> string \<Rightarrow> error + nat" where
  "lookup d k = (case d k of None \<Rightarrow> Inl KeyError | Some c \<Rightarrow> Inr c)"

text \<open>
  The histogram, lines 111 to 132 of the first script and 166 to 188 of the second: the
  counting loops, the title, and one line for each bucket.
\<close>

definition histogram :: "bucket list \<Rightarrow> pyfloat list \<Rightarrow> printed" where
  "histogram ranges xs =
     compute (distribution ranges xs) (\<lambda>counts.
       sections (say [HistTitle (length xs)] #
         map (\<lambda>(label, low, high).
                compute (lookup counts label) (\<lambda>count. say [HistLine label count]))
           ranges))"

subsection \<open>First script, lines 49 to 151\<close>

definition overview :: "entry state \<Rightarrow> printed" where
  "overview st =
     say [Title, FixedTimeRange, TotalRecords (total_scans st),
          ScanCount (total_scans st div 3), OpportunitiesFound (opportunities st),
          NoOpportunityRemark]"

text \<open>Lines 75 to 84. \<^verbatim>\<open>if max_spread_entry:\<close> holds for a non-empty list.\<close>

definition top_case :: "runtime \<Rightarrow> row option \<Rightarrow> printed" where
  "top_case rt entry =
     sections (say [TopCaseTitle] #
       (case entry of
          None \<Rightarrow> []
        | Some e \<Rightarrow>
            if e = [] then []
            else
              [compute (item e 2) (\<lambda>pair. say [TopCasePair pair]),
               compute (item e 3) (\<lambda>spread. say [TopCaseSpread spread]),
               compute (item e 0) (\<lambda>time. say [TopCaseTime time]),
               compute (item e 18) (\<lambda>dex.
                 compute (and_then (item e 19) (to_float rt)) (\<lambda>price.
                   say [TopCaseBuy dex price])),
               compute (item e 20) (\<lambda>dex.
                 compute (and_then (item e 21) (to_float rt)) (\<lambda>price.
                   say [TopCaseSell dex price])),
               compute (item e 4) (\<lambda>flag. say [TopCaseOpportunity (flag = ''1'')]),
               compute (item e 5) (\<lambda>reason. say [TopCaseReject reason]),
               compute (and_then (item e 27) (to_float rt)) (\<lambda>price.
                 say [TopCaseEth price])]))"

text \<open>
  Lines 86 to 91. The keys of a dictionary are distinct, so sorting its items compares
  the keys only.
\<close>

definition pair_line :: "runtime \<Rightarrow> string \<times> pyfloat list \<Rightarrow> printed" where
  "pair_line rt p =
     (case p of (pair, pair_spread_list) \<Rightarrow>
        compute (mean rt pair_spread_list) (\<lambda>avg.
        compute (max_of pair_spread_list) (\<lambda>max_val.
        compute (min_of pair_spread_list) (\<lambda>min_val.
          say [PairLine pair avg min_val max_val]))))"

definition pairs :: "runtime \<Rightarrow> (string \<times> pyfloat list) list \<Rightarrow> printed" where
  "pairs rt d = sections (say [PairsTitle] # map (pair_line rt) (sort_key fst d))"

text \<open>Lines 93 to 99.\<close>

definition eth_section :: "pyfloat \<times> pyfloat \<times> pyfloat \<Rightarrow> printed" where
  "eth_section stats =
     (case stats of (avg_eth, max_eth, min_eth) \<Rightarrow>
        say ([EthStats avg_eth min_eth max_eth] @
             (if fl_gt min_eth (Fin 0) then [EthVolatility] else []) @
             [EthRemark]))"

text \<open>
  Lines 101 to 109: the reasons by falling count, the sort being stable; each line
  divides by \<^verbatim>\<open>total_scans\<close>.
\<close>

definition reject_line :: "nat \<Rightarrow> nat \<Rightarrow> string \<times> nat \<Rightarrow> printed" where
  "reject_line width scans p =
     (case p of (reason, n) \<Rightarrow>
        if scans = 0 then raises ZeroDivisionError
        else say [RejectLine (take width reason) n])"

definition sorted_reasons :: "(string \<times> nat) list \<Rightarrow> (string \<times> nat) list" where
  "sorted_reasons d = sort_key (\<lambda>x. - int (snd x)) d"

definition rejects :: "(string \<times> nat) list \<Rightarrow> nat \<Rightarrow> printed" where
  "rejects d scans =
     sections (say [RejectsTitle] #
       (if d \<noteq> [] then map (reject_line 45 scans) (sorted_reasons d)
        else [say [NoExplicitRejects scans (sum_list (map snd d))]]))"

text \<open>
  Lines 134 to 139. \<^verbatim>\<open>ts.split('T')[1]\<close> raises IndexError on a timestamp without
  a \<^verbatim>\<open>T\<close>.
\<close>

definition top_line :: "nat \<times> entry \<Rightarrow> printed" where
  "top_line p =
     (case p of (i, ts, spread, pair, reject, eth) \<Rightarrow>
        compute (item (split_str CHR ''T'' ts) 1) (\<lambda>t.
          say [TopKLine i pair spread (take 8 t) eth (take 30 reject)]))"

definition top_spreads :: "entry list \<Rightarrow> printed" where
  "top_spreads ts =
     sections (say [TopKTitle] # map top_line (enumerate 1 (sorted_time_spreads ts)))"

text \<open>
  The statistics of lines 50 to 58 are computed before anything is printed; then the
  sections follow.
\<close>

definition report :: "runtime \<Rightarrow> entry state \<Rightarrow> printed" where
  "report rt st =
     compute (spread_stats rt (spreads st))
       (\<lambda>(avg_spread, max_spread_val, min_spread_val, median).
     compute (price_stats rt (eth_prices st)) (\<lambda>eth.
       sections
         [overview st,
          say [SpreadStats avg_spread median min_spread_val max_spread_val],
          top_case rt (max_spread_entry st),
          pairs rt (pair_spreads st),
          eth_section eth,
          rejects (reject_reasons st) (total_scans st),
          histogram spread_ranges (spreads st),
          top_spreads (time_spreads st),
          say [Conclusion]]))"

text \<open>
  The whole script on the rows of the file: an exception in the read pass ends the run
  before the first \<^verbatim>\<open>print\<close>.
\<close>

definition analyze_csv :: "runtime \<Rightarrow> row list \<Rightarrow> printed" where
  "analyze_csv rt rows = compute (read_rows rt init rows) (report rt)"


subsection \<open>Second script, lines 72 to 230\<close>

definition overview_new :: "runtime \<Rightarrow> entry_new state_new \<Rightarrow> printed" where
  "overview_new rt st =
     say [Title,
          (if time_spreads st \<noteq> []
           then TimeRange (fst (hd (time_spreads st))) (fst (last (time_spreads st)))
           else TimeRange ''N/A'' ''N/A''),
          TotalRecords (total_scans st),
          ScanCount (total_scans st div 3),
          MonitoringHours (hours rt (time_spreads st)),
          OpportunitiesFound (opportunities st),
          OpportunityRate]"

definition eth_section_new :: "pyfloat \<times> pyfloat \<times> pyfloat \<Rightarrow> printed" where
  "eth_section_new stats =
     (case stats of (avg_eth, max_eth, min_eth) \<Rightarrow>
        say ([EthStats avg_eth min_eth max_eth] @
             (if fl_gt min_eth (Fin 0) then [EthVolatility] else [])))"

text \<open>
  Lines 137 to 145. The raw fields 27 and 28 of the row are converted again, this time
  without the test for an empty field.
\<close>

definition top_case_new :: "runtime \<Rightarrow> row option \<Rightarrow> printed" where
  "top_case_new rt entry =
     sections (say [TopCaseTitle] #
       (case entry of
          None \<Rightarrow> []
        | Some e \<Rightarrow>
            if e = [] then []
            else
              [compute (item e 2) (\<lambda>pair. say [TopCasePair pair]),
               compute (item e 3) (\<lambda>spread. say [TopCaseSpread spread]),
               compute (item e 0) (\<lambda>time. say [TopCaseTime time]),
               compute (item e 4) (\<lambda>flag. say [TopCaseOpportunity (flag = ''1'')]),
               say [TopCaseReject (if length e > 5 \<and> e ! 5 \<noteq> [] then e ! 5 else [])],
               compute (and_then (item e 27) (to_float rt)) (\<lambda>price.
                 say [TopCaseEth price]),
               compute (and_then (item e 28) (to_float rt)) (\<lambda>gas.
                 say [TopCaseGas gas])]))"

definition pair_line_new :: "runtime \<Rightarrow> string \<times> pyfloat list \<Rightarrow> printed" where
  "pair_line_new rt p =
     (case p of (pair, pair_spread_list) \<Rightarrow>
        compute (mean rt pair_spread_list) (\<lambda>avg.
        compute (max_of pair_spread_list) (\<lambda>max_val.
        compute (min_of pair_spread_list) (\<lambda>min_val.
          say [PairLineNew pair avg min_val max_val (length pair_spread_list)]))))"

definition pairs_new :: "runtime \<Rightarrow> (string \<times> pyfloat list) list \<Rightarrow> printed" where
  "pairs_new rt d = sections (say [PairsTitle] # map (pair_line_new rt) (sort_key fst d))"

text \<open>
  Lines 155 to 164. Without any reject reason, line 164 divides by \<^verbatim>\<open>total_scans\<close>.
\<close>

definition rejects_new :: "(string \<times> nat) list \<Rightarrow> nat \<Rightarrow> printed" where
  "rejects_new d scans =
     sections (say [RejectsTitle] #
       (if d \<noteq> [] then map (reject_line 50 scans) (sorted_reasons d)
        else
          [say [NoExplicitRejects scans (sum_list (map snd d))],
           if scans = 0 then raises ZeroDivisionError
           else say [BelowThreshold (int scans - int (sum_list (map snd d)))]]))"

text \<open>
  \<^verbatim>\<open>ts.split('T')[1][:8] if 'T' in ts else ts[:8]\<close>
\<close>

definition time_str :: "string \<Rightarrow> error + string" where
  "time_str ts =
     (if CHR ''T'' \<in> set ts
      then and_then (item (split_str CHR ''T'' ts) 1) (\<lambda>t. Inr (take 8 t))
      else Inr (take 8 ts))"

definition top_line_new :: "nat \<times> entry_new \<Rightarrow> printed" where
  "top_line_new p =
     (case p of (i, ts, spread, pair, reject, eth, gas, has_opp) \<Rightarrow>
        compute (time_str ts) (\<lambda>t.
          say [TopKLineNew i (has_opp = 1) pair spread t eth gas (take 35 reject)]))"

definition top_spreads_new :: "entry_new list \<Rightarrow> printed" where
  "top_spreads_new ts =
     sections (say [TopKTitle] # map top_line_new (enumerate 1 (sorted_time_spreads_new ts)))"

text \<open>Lines 198 to 206.\<close>

definition anomaly_lines :: "nat \<times> high_spread_case \<Rightarrow> printed" where
  "anomaly_lines p =
     (case p of (i, c) \<Rightarrow>
        compute (time_str (case_timestamp c)) (\<lambda>t.
          say [AnomalyLine i (case_pair c) (case_spread c) t (case_eth_price c)
                 (case_gas_gwei c),
               AnomalyReject (case_reject_reason c)]))"

definition anomalies :: "high_spread_case list \<Rightarrow> printed" where
  "anomalies cs =
     (if cs \<noteq> []
      then sections (say [AnomalyTitle (length cs)] #
             map anomaly_lines (enumerate 1 (sorted_high cs)))
      else say [])"

text \<open>Lines 208 to 230.\<close>

definition conclusion_new :: "pyfloat \<Rightarrow> entry_new state_new \<Rightarrow> printed" where
  "conclusion_new avg_spread st =
     sections
       [say [ConclusionTitle],
        (if opportunities st = 0 then
           say [NoOpportunity avg_spread,
                (if high_spread_cases st \<noteq> []
                 then AnomaliesNeedReview (length (high_spread_cases st))
                 else MostlyBelowThreshold)]
         else if total_scans st = 0 then raises ZeroDivisionError
         else say [OpportunityFound (opportunities st)]),
        say [NextSteps (high_spread_cases st \<noteq> []), EndBanner]]"

text \<open>
  Lines 72 to 108 compute the statistics and the duration before anything is printed.
\<close>

definition report_new :: "runtime \<Rightarrow> entry_new state_new \<Rightarrow> printed" where
  "report_new rt st =
     compute (spread_stats_new rt (spreads st))
       (\<lambda>(avg_spread, max_spread_val, min_spread_val, median).
     compute (price_stats_new rt (eth_prices st)) (\<lambda>eth.
     compute (price_stats_new rt (gas_prices st)) (\<lambda>(avg_gas, max_gas, min_gas).
       sections
         [overview_new rt st,
          say [SpreadStats avg_spread median min_spread_val max_spread_val],
          eth_section_new eth,
          say [GasStats avg_gas min_gas max_gas],
          top_case_new rt (max_spread_entry st),
          pairs_new rt (pair_spreads st),
          rejects_new (reject_reasons st) (total_scans st),
          histogram spread_ranges_new (spreads st),
          top_spreads_new (time_spreads st),
          anomalies (high_spread_cases st),
          conclusion_new avg_spread st])))"

text \<open>
  The whole script on the rows of the file. \<^verbatim>\<open>header = next(reader)\<close> takes the first
  row, whatever it holds, and raises StopIteration when the file has no row at all.
\<close>

definition analyze_csv_new :: "runtime \<Rightarrow> row list \<Rightarrow> printed" where
  "analyze_csv_new rt rows =
     (case rows of
        [] \<Rightarrow> raises StopIteration
      | header # data \<Rightarrow> compute (read_rows_new rt init_new data) (report_new rt))"

section \<open>A sample runtime and sample rows\<close>

text \<open>
  For the worked examples: a runtime that gives CPython's results on a handful of
  strings, all of them exactly representable, and rejects every other string.
\<close>

definition sample_float :: "string \<Rightarrow> pyfloat option" where
  "sample_float =
     map_of
       [(''0.25'', Fin (1 / 4)), (''0.5'', Fin (1 / 2)), (''0.75'', Fin (3 / 4)),
        (''0'', Fin 0), (''-1.5'', Fin (- (3 / 2))), (''1000'', Fin 1000),
        (''3000.0'', Fin 3000), (''30.0'', Fin 30), (''nan'', NaN)]"

definition sample_int :: "string \<Rightarrow> int option" where
  "sample_int = map_of [(''0'', 0), (''1'', 1), (''2'', 2), (''3'', 3)]"

definition sample_fromisoformat :: "string \<Rightarrow> datetime option" where
  "sample_fromisoformat =
     map_of
       [(''2025-12-19T09:00:00+00:00'', Aware 1766134800000000),
        (''2025-12-19T10:30:00+00:00'', Aware 1766140200000000),
        (''2025-12-19T09:00:00'', Naive 1766134800000000)]"

fun fin_value :: "pyfloat \<Rightarrow> real option" where
  "fin_value (Fin r) = Some r"
| "fin_value _ = None"

definition sample_mean :: "pyfloat list \<Rightarrow> pyfloat" where
  "sample_mean xs =
     (case those (map fin_value xs) of
        Some rs \<Rightarrow> Fin (sum_list rs / real (length rs))
      | None \<Rightarrow> NaN)"

definition sample_rt :: runtime where
  "sample_rt =
     \<lparr>py_float = sample_float, py_int = sample_int,
      fromisoformat = sample_fromisoformat, py_mean = sample_mean\<rparr>"

text \<open>A row of 29 fields; fields 18 to 21 are the two exchanges and their prices.\<close>

definition sample_row ::
  "string \<Rightarrow> string \<Rightarrow> string \<Rightarrow> string \<Rightarrow> string \<Rightarrow> string \<Rightarrow> string \<Rightarrow> row" where
  "sample_row ts pair spread opp reason eth gas =
     [ts, ''1'', pair, spread, opp, reason] @ replicate 12 [] @
     [''uniswap'', ''3000.0'', ''sushiswap'', ''3000.0''] @ replicate 5 [] @ [eth, gas]"

definition sample_header :: row where
  "sample_header = replicate 29 ''column''"


text \<open>Sample rows: three that convert, and one whose spread field is not a number.\<close>

definition row_a :: row where
  "row_a = sample_row ''2025-12-19T09:00:00Z'' ''WETH/USDT'' ''0.25'' ''0'' [] ''3000.0'' ''30.0''"

definition row_b :: row where
  "row_b = sample_row ''2025-12-19T09:30:00Z'' ''WETH/USDC'' ''0.75'' ''0''
     ''Not profitable after fees'' ''3000.0'' ''30.0''"

definition row_c :: row where
  "row_c = sample_row ''2025-12-19T10:30:00Z'' ''WETH/USDT'' ''0.75'' ''0'' '' '' ''3000.0'' ''30.0''"

definition row_bad :: row where
  "row_bad = sample_row ''2025-12-19T09:15:00Z'' ''WETH/USDT'' ''abc'' ''0'' [] ''3000.0'' ''30.0''"

text \<open>Two rows whose spreads are zero and negative.\<close>

definition row_zero :: row where
  "row_zero = sample_row ''2025-12-19T09:00:00Z'' ''WETH/USDT'' ''0'' ''0'' [] ''3000.0'' ''30.0''"

definition row_neg :: row where
  "row_neg = sample_row ''2025-12-19T10:30:00Z'' ''WETH/USDC'' ''-1.5'' ''0'' [] ''3000.0'' ''30.0''"

text \<open>
  The accumulators after the first script has read \<open>row_a\<close>, \<open>row_b\<close>, \<open>row_c\<close>, and
  after the second one has read the same rows with \<open>row_bad\<close> among them.
\<close>

definition sample_state :: "entry state" where
  "sample_state =
     \<lparr>spreads = [Fin (1 / 4), Fin (3 / 4), Fin (3 / 4)],
      eth_prices = [Fin 3000, Fin 3000, Fin 3000], opportunities = 0, total_scans = 3,
      reject_reasons = [(''Not profitable after fees'', 1)],
      pair_spreads =
        [(''WETH/USDT'', [Fin (1 / 4), Fin (3 / 4)]), (''WETH/USDC'', [Fin (3 / 4)])],
      max_spread_entry = Some row_b,
      max_spread = Fin (3 / 4),
      time_spreads =
        [(''2025-12-19T09:00:00Z'', Fin (1 / 4), ''WETH/USDT'', [], Fin 3000),
         (''2025-12-19T09:30:00Z'', Fin (3 / 4), ''WETH/USDC'',
          ''Not profitable after fees'', Fin 3000),
         (''2025-12-19T10:30:00Z'', Fin (3 / 4), ''WETH/USDT'', [], Fin 3000)]\<rparr>"

definition sample_state_new :: "entry_new state_new" where
  "sample_state_new =
     \<lparr>spreads = [Fin (1 / 4), Fin (3 / 4), Fin (3 / 4)],
      eth_prices = [Fin 3000, Fin 3000, Fin 3000], opportunities = 0, total_scans = 4,
      reject_reasons = [(''Not profitable after fees'', 1)],
      pair_spreads =
        [(''WETH/USDT'', [Fin (1 / 4), Fin (3 / 4)]), (''WETH/USDC'', [Fin (3 / 4)])],
      max_spread_entry = Some row_b,
      max_spread = Fin (3 / 4),
      time_spreads =
        [(''2025-12-19T09:00:00Z'', Fin (1 / 4), ''WETH/USDT'', [], Fin 3000, Fin 30, 0),
         (''2025-12-19T09:30:00Z'', Fin (3 / 4), ''WETH/USDC'',
          ''Not profitable after fees'', Fin 3000, Fin 30, 0),
         (''2025-12-19T10:30:00Z'', Fin (3 / 4), ''WETH/USDT'', [], Fin 3000, Fin 30, 0)],
      gas_prices = [Fin 30, Fin 30, Fin 30],
      high_spread_cases =
        [HighSpreadCase ''2025-12-19T09:00:00Z'' ''WETH/USDT'' (Fin (1 / 4)) []
           (Fin 3000) (Fin 30),
         HighSpreadCase ''2025-12-19T09:30:00Z'' ''WETH/USDC'' (Fin (3 / 4))
           ''Not profitable after fees'' (Fin 3000) (Fin 30),
         HighSpreadCase ''2025-12-19T10:30:00Z'' ''WETH/USDT'' (Fin (3 / 4)) []
           (Fin 3000) (Fin 30)]\<rparr>"

text \<open>The accumulators after the first script has read \<open>row_zero\<close> and \<open>row_neg\<close>.\<close>

definition zero_state :: "entry state" where
  "zero_state =
     \<lparr>spreads = [Fin 0, Fin (- (3 / 2))],
      eth_prices = [Fin 3000, Fin 3000], opportunities = 0, total_scans = 2,
      reject_reasons = [],
      pair_spreads = [(''WETH/USDT'', [Fin 0]), (''WETH/USDC'', [Fin (- (3 / 2))])],
      max_spread_entry = None,
      max_spread = Fin 0,
      time_spreads =
        [(''2025-12-19T09:00:00Z'', Fin 0, ''WETH/USDT'', [], Fin 3000),
         (''2025-12-19T10:30:00Z'', Fin (- (3 / 2)), ''WETH/USDC'', [], Fin 3000)]\<rparr>"

section \<open>Notions used in the proofs\<close>

text \<open>
  A value lies in a bucket when \<^verbatim>\<open>low <= s < high\<close>; the bucket of a value is the
  label of the first bucket of the list, in its order, in which the value lies; and the
  expected counts are, for each bucket, the number of values whose bucket it is.
\<close>

definition in_bucket :: "pyfloat \<Rightarrow> bucket \<Rightarrow> bool" where
  "in_bucket s b = (case b of (label, low, high) \<Rightarrow> fl_le low s \<and> fl_lt s high)"

definition bucket_of :: "bucket list \<Rightarrow> pyfloat \<Rightarrow> string option" where
  "bucket_of ranges s = map_option fst (find (in_bucket s) ranges)"

definition bucket_counts :: "bucket list \<Rightarrow> pyfloat list \<Rightarrow> nat list" where
  "bucket_counts ranges xs =
     map (\<lambda>b. length (filter (\<lambda>s. bucket_of ranges s = Some (fst b)) xs)) ranges"

text \<open>
  The spread with which a row is aggregated, if it is: the row has at least 29 fields and
  its conversions succeed.
\<close>

definition kept_spread :: "runtime \<Rightarrow> row \<Rightarrow> pyfloat option" where
  "kept_spread rt row =
     (if length row < 29 then None
      else case convert rt row of Inl e \<Rightarrow> None | Inr r \<Rightarrow> Some (entry_spread (fst r)))"

definition kept_spread_new :: "runtime \<Rightarrow> row \<Rightarrow> pyfloat option" where
  "kept_spread_new rt row =
     (if length row < 29 then None
      else case convert_new rt row of Inl e \<Rightarrow> None | Inr r \<Rightarrow> Some (entry_spread_new r))"

text \<open>
  What the running maximum must be after a pass over \<open>rows\<close>, where \<open>sp\<close> gives the
  spread of an aggregated row. Either no row was recorded, the maximum is still the
  initial 0 and no aggregated spread exceeds 0; or the recorded row carries the maximum,
  which exceeds 0, stands somewhere in the input, no aggregated row before it reaches the
  maximum and none after it exceeds it.
\<close>

definition first_maximum ::
  "(row \<Rightarrow> pyfloat option) \<Rightarrow> row list \<Rightarrow> pyfloat \<Rightarrow> row option \<Rightarrow> bool" where
  "first_maximum sp rows m entry =
     (case entry of
        None \<Rightarrow> m = Fin 0 \<and> (\<forall>r\<in>set rows. \<forall>s. sp r = Some s \<longrightarrow> \<not> fl_gt s (Fin 0))
      | Some e \<Rightarrow>
          sp e = Some m \<and> fl_gt m (Fin 0) \<and>
          (\<exists>pre post. rows = pre @ e # post \<and>
             (\<forall>r\<in>set pre. \<forall>s. sp r = Some s \<longrightarrow> \<not> fl_ge s m) \<and>
             (\<forall>r\<in>set post. \<forall>s. sp r = Some s \<longrightarrow> \<not> fl_gt s m)))"

text \<open>
  What the reject-reason table must hold after a pass over \<open>rows\<close>, of which the rows
  satisfying \<open>kept\<close> were aggregated: distinct keys, and for each reason the number of
  aggregated rows whose trimmed reason it is, with no entry for the empty reason or for a
  reason that never occurred.
\<close>

definition reason_table :: "(row \<Rightarrow> bool) \<Rightarrow> row list \<Rightarrow> (string \<times> nat) list \<Rightarrow> bool" where
  "reason_table kept rows d \<longleftrightarrow>
     distinct (map fst d) \<and>
     (\<forall>k. map_of d k =
        (let n = length (filter (\<lambda>row. kept row \<and> strip (row ! 5) = k) rows)
         in if k = [] \<or> n = 0 then None else Some n))"

section \<open>Comparisons, sorting, minimum and maximum\<close>

text \<open>
  Away from NaN the comparisons are those of a total preorder; the facts below are what
  the statistics need of them.
\<close>

lemma fl_lt_irrefl [simp]: "\<not> fl_lt x x"
  by (cases x) auto

lemma fl_lt_trans: "fl_lt x y \<Longrightarrow> fl_lt y z \<Longrightarrow> fl_lt x z"
  by (cases x; cases y; cases z) auto

lemma fl_lt_asym: "fl_lt x y \<Longrightarrow> \<not> fl_lt y x"
  by (cases x; cases y) auto

lemma fl_le_iff_not_lt: "x \<noteq> NaN \<Longrightarrow> y \<noteq> NaN \<Longrightarrow> fl_le x y \<longleftrightarrow> \<not> fl_lt y x"
  by (cases x; cases y) (auto simp: fl_le_def)

lemma fl_le_refl: "x \<noteq> NaN \<Longrightarrow> fl_le x x"
  by (simp add: fl_le_def)

lemma fl_le_trans: "fl_le x y \<Longrightarrow> fl_le y z \<Longrightarrow> fl_le x z"
  by (cases x; cases y; cases z) (auto simp: fl_le_def)

lemma fl_le_not_nan: "fl_le x y \<Longrightarrow> x \<noteq> NaN \<and> y \<noteq> NaN"
  by (cases x; cases y) (auto simp: fl_le_def)

lemma length_insort_by [simp]: "length (insort_by k x xs) = Suc (length xs)"
  by (induction xs) auto

lemma length_py_sorted [simp]: "length (py_sorted k xs) = length xs"
  by (induction xs) auto

lemma mset_insort_by [simp]: "mset (insort_by k x xs) = add_mset x (mset xs)"
  by (induction xs) auto

lemma mset_py_sorted [simp]: "mset (py_sorted k xs) = mset xs"
  by (induction xs) auto

lemma set_insort_by [simp]: "set (insort_by k x xs) = insert x (set xs)"
  by (induction xs) auto

lemma set_py_sorted [simp]: "set (py_sorted k xs) = set xs"
  by (induction xs) auto

lemma sorted_insort_by:
  assumes "sorted_wrt (\<lambda>a b. fl_le (k a) (k b)) xs" "k x \<noteq> NaN" "\<forall>y\<in>set xs. k y \<noteq> NaN"
  shows "sorted_wrt (\<lambda>a b. fl_le (k a) (k b)) (insort_by k x xs)"
  using assms
proof (induction xs)
  case Nil
  then show ?case by simp
next
  case (Cons y ys)
  show ?case
  proof (cases "fl_lt (k y) (k x)")
    case True
    then have "fl_le (k y) (k x)" by (simp add: fl_le_def)
    with Cons True show ?thesis by auto
  next
    case False
    with Cons.prems have xy: "fl_le (k x) (k y)" by (simp add: fl_le_iff_not_lt)
    have "\<forall>z\<in>set ys. fl_le (k x) (k z)"
      using Cons.prems(1) xy by (auto intro: fl_le_trans)
    with False xy Cons.prems(1) show ?thesis by simp
  qed
qed

lemma sorted_py_sorted:
  "\<forall>y\<in>set xs. k y \<noteq> NaN \<Longrightarrow> sorted_wrt (\<lambda>a b. fl_le (k a) (k b)) (py_sorted k xs)"
  by (induction xs) (auto intro: sorted_insort_by)

lemma py_min_fold_mem: "foldl (\<lambda>m y. if fl_lt y m then y else m) x xs \<in> insert x (set xs)"
  by (induction xs arbitrary: x) auto

lemma py_min_fold_le:
  "x \<noteq> NaN \<Longrightarrow> NaN \<notin> set xs \<Longrightarrow>
   fl_le (foldl (\<lambda>m y. if fl_lt y m then y else m) x xs) x \<and>
   (\<forall>z\<in>set xs. fl_le (foldl (\<lambda>m y. if fl_lt y m then y else m) x xs) z)"
proof (induction xs arbitrary: x)
  case Nil
  then show ?case by (simp add: fl_le_refl)
next
  case (Cons y ys)
  let ?f = "\<lambda>m y. if fl_lt y m then y else m"
  show ?case
  proof (cases "fl_lt y x")
    case True
    have ih: "fl_le (foldl ?f y ys) y \<and> (\<forall>z\<in>set ys. fl_le (foldl ?f y ys) z)"
      using Cons.IH[of y] Cons.prems by auto
    have "fl_le y x" using True by (simp add: fl_le_def)
    with ih True show ?thesis by (auto intro: fl_le_trans)
  next
    case False
    have ih: "fl_le (foldl ?f x ys) x \<and> (\<forall>z\<in>set ys. fl_le (foldl ?f x ys) z)"
      using Cons.IH[of x] Cons.prems by auto
    have "y \<noteq> NaN" using Cons.prems by auto
    then have "fl_le x y" using False Cons.prems by (simp add: fl_le_iff_not_lt)
    with ih False show ?thesis by (auto intro: fl_le_trans)
  qed
qed

lemma py_max_fold_mem: "foldl (\<lambda>m y. if fl_gt y m then y else m) x xs \<in> insert x (set xs)"
  by (induction xs arbitrary: x) auto

lemma py_max_fold_ge:
  "x \<noteq> NaN \<Longrightarrow> NaN \<notin> set xs \<Longrightarrow>
   fl_le x (foldl (\<lambda>m y. if fl_gt y m then y else m) x xs) \<and>
   (\<forall>z\<in>set xs. fl_le z (foldl (\<lambda>m y. if fl_gt y m then y else m) x xs))"
proof (induction xs arbitrary: x)
  case Nil
  then show ?case by (simp add: fl_le_refl)
next
  case (Cons y ys)
  let ?f = "\<lambda>m y. if fl_gt y m then y else m"
  show ?case
  proof (cases "fl_gt y x")
    case True
    have ih: "fl_le y (foldl ?f y ys) \<and> (\<forall>z\<in>set ys. fl_le z (foldl ?f y ys))"
      using Cons.IH[of y] Cons.prems by auto
    have "fl_le x y" using True by (simp add: fl_le_def fl_gt_def)
    with ih True show ?thesis by (auto intro: fl_le_trans)
  next
    case False
    have ih: "fl_le x (foldl ?f x ys) \<and> (\<forall>z\<in>set ys. fl_le z (foldl ?f x ys))"
      using Cons.IH[of x] Cons.prems by auto
    have "y \<noteq> NaN" using Cons.prems by auto
    then have "fl_le y x" using False Cons.prems by (simp add: fl_le_iff_not_lt fl_gt_def)
    with ih False show ?thesis by (auto intro: fl_le_trans)
  qed
qed

lemma py_min_le:
  assumes "NaN \<notin> set (x # xs)" "z \<in> set (x # xs)"
  shows "fl_le (py_min x xs) z"
  using py_min_fold_le[of x xs] assms by (auto simp: py_min_def)

lemma py_max_ge:
  assumes "NaN \<notin> set (x # xs)" "z \<in> set (x # xs)"
  shows "fl_le z (py_max x xs)"
  using py_max_fold_ge[of x xs] assms by (auto simp: py_max_def)

lemma median_spread_eq:
  "xs \<noteq> [] \<Longrightarrow> median_spread xs = Inr (py_sorted (\<lambda>s. s) xs ! (length xs div 2))"
  by (simp add: median_spread_def item_def Let_def)

lemma spread_stats_eq:
  "spread_stats rt (x # xs) =
     Inr (py_mean rt (x # xs), py_max x xs, py_min x xs,
          py_sorted (\<lambda>s. s) (x # xs) ! (length (x # xs) div 2))"
  unfolding spread_stats_def
  by (simp add: mean_def max_of_def min_of_def and_then_def median_spread_eq del: py_sorted.simps)

section \<open>The median (claim C3)\<close>

text \<open>
  Claim C3, as amended. For every non-empty list of parsed spread values none of which is
  NaN, both scripts compute their statistics without raising, the reported median is the
  element at index \<open>n div 2\<close> of the list sorted ascending (the sorted list being ordered
  and a rearrangement of the spreads), and the minimum is at most the median, which is at
  most the maximum. For an even \<open>n\<close> the median is the upper of the two middle elements:
  the element just before it in the sorted list is at most the median, and no average is
  taken.
\<close>

theorem median_between_min_and_max:
  assumes "xs \<noteq> []" and "NaN \<notin> set xs"
  shows "\<exists>avg mx mn md.
           spread_stats rt xs = Inr (avg, mx, mn, md) \<and>
           spread_stats_new rt xs = Inr (avg, mx, mn, md) \<and>
           md = py_sorted (\<lambda>s. s) xs ! (length xs div 2) \<and>
           sorted_wrt fl_le (py_sorted (\<lambda>s. s) xs) \<and>
           mset (py_sorted (\<lambda>s. s) xs) = mset xs \<and>
           fl_le mn md \<and> fl_le md mx \<and>
           (even (length xs) \<longrightarrow>
              fl_le (py_sorted (\<lambda>s. s) xs ! (length xs div 2 - 1)) md)"
proof -
  obtain x xs' where xs: "xs = x # xs'" using assms(1) by (cases xs) auto
  let ?s = "py_sorted (\<lambda>s. s) xs"
  let ?md = "?s ! (length xs div 2)"
  have len: "length xs div 2 < length ?s" using assms(1) by simp
  have sorted: "sorted_wrt fl_le ?s"
    using sorted_py_sorted[of xs "\<lambda>s. s"] assms(2) by auto
  have "?md \<in> set ?s" using len by (rule nth_mem)
  then have mem: "?md \<in> set (x # xs')" by (simp add: xs del: py_sorted.simps)
  have nan: "NaN \<notin> set (x # xs')" using assms(2) xs by simp
  have lo: "fl_le (py_min x xs') ?md" using py_min_le[OF nan mem] .
  have hi: "fl_le ?md (py_max x xs')" using py_max_ge[OF nan mem] .
  have upper: "fl_le (?s ! (length xs div 2 - 1)) ?md" if "even (length xs)"
  proof -
    have "length xs \<ge> 2" using that assms(1) by (cases xs; cases "tl xs") auto
    then have "length xs div 2 - 1 < length xs div 2" by simp
    then show ?thesis using sorted len by (simp add: sorted_wrt_nth_less del: py_sorted.simps)
  qed
  have stats: "spread_stats rt xs = Inr (py_mean rt xs, py_max x xs', py_min x xs', ?md)"
    unfolding xs by (rule spread_stats_eq)
  have "spread_stats_new rt xs = spread_stats rt xs"
    using assms(1) by (simp add: spread_stats_new_def)
  with stats sorted lo hi upper show ?thesis by (auto simp del: py_sorted.simps)
qed

text \<open>
  The theorem at four spreads: the median is 0.75, the upper of the two middle values 0.5
  and 0.75, and not their average.
\<close>

theorem median_between_min_and_max_witness:
  "[Fin (3 / 4), Fin (1 / 4), Fin 1000, Fin (1 / 2)] \<noteq> [] \<and>
   NaN \<notin> set [Fin (3 / 4), Fin (1 / 4), Fin 1000, Fin (1 / 2)] \<and>
   spread_stats sample_rt [Fin (3 / 4), Fin (1 / 4), Fin 1000, Fin (1 / 2)] =
     Inr (Fin (2003 / 8), Fin 1000, Fin (1 / 4), Fin (3 / 4)) \<and>
   py_sorted (\<lambda>s. s) [Fin (3 / 4), Fin (1 / 4), Fin 1000, Fin (1 / 2)] =
     [Fin (1 / 4), Fin (1 / 2), Fin (3 / 4), Fin 1000] \<and>
   fl_le (Fin (1 / 4)) (Fin (3 / 4)) \<and> fl_le (Fin (3 / 4)) (Fin 1000)"
proof -
  let ?xs = "[Fin (3 / 4), Fin (1 / 4), Fin 1000, Fin (1 / 2)]"
  have h1: "?xs \<noteq> []" by simp
  have h2: "NaN \<notin> set ?xs" by simp
  have s: "py_sorted (\<lambda>s. s) ?xs = [Fin (1 / 4), Fin (1 / 2), Fin (3 / 4), Fin 1000]"
    by simp
  have st: "spread_stats sample_rt ?xs =
      Inr (Fin (2003 / 8), Fin 1000, Fin (1 / 4), Fin (3 / 4))"
    by (simp add: spread_stats_eq py_max_def py_min_def fl_gt_def sample_rt_def
        sample_mean_def)
  from median_between_min_and_max[OF h1 h2, of sample_rt] st s h1 h2
  show ?thesis by auto
qed

text \<open>
  Without the condition on NaN the ordering fails. \<^verbatim>\<open>float('nan')\<close> is a value that
  \<^verbatim>\<open>float\<close> accepts; for the single spread NaN the minimum, the median and the maximum
  are all NaN, and \<^verbatim>\<open>nan <= nan\<close> is false.
\<close>

theorem median_nan_counterexample:
  "min_of [NaN] = Inr NaN \<and> median_spread [NaN] = Inr NaN \<and> max_of [NaN] = Inr NaN \<and>
   \<not> fl_le NaN NaN"
  by (simp add: min_of_def max_of_def median_spread_def item_def py_min_def py_max_def fl_le_def)

section \<open>Exceptions, conversions and the sample rows\<close>

lemma and_then_Inr [simp]: "and_then (Inr x) f = f x"
  by (simp add: and_then_def)

lemma and_then_Inl [simp]: "and_then (Inl e) f = Inl e"
  by (simp add: and_then_def)

lemma to_float_simps [simp]:
  "py_float rt s = None \<Longrightarrow> to_float rt s = Inl ValueError"
  "py_float rt s = Some x \<Longrightarrow> to_float rt s = Inr x"
  by (simp_all add: to_float_def)

lemma to_int_simps [simp]:
  "py_int rt s = None \<Longrightarrow> to_int rt s = Inl ValueError"
  "py_int rt s = Some n \<Longrightarrow> to_int rt s = Inr n"
  by (simp_all add: to_int_def)

lemma to_float_error: "to_float rt s = Inl e \<Longrightarrow> e = ValueError"
  by (auto simp: to_float_def split: option.splits)

lemma to_int_error: "to_int rt s = Inl e \<Longrightarrow> e = ValueError"
  by (auto simp: to_int_def split: option.splits)

lemma and_then_error:
  "and_then m f = Inl e \<Longrightarrow> (m = Inl e \<or> (\<exists>x. m = Inr x \<and> f x = Inl e))"
  by (cases m) auto

lemma length_sample_row [simp]: "length (sample_row ts pair spread opp reason eth gas) = 29"
  by (simp add: sample_row_def)

lemma sample_row_nth [simp]:
  "sample_row ts pair spread opp reason eth gas ! 0 = ts"
  "sample_row ts pair spread opp reason eth gas ! 1 = ''1''"
  "sample_row ts pair spread opp reason eth gas ! 2 = pair"
  "sample_row ts pair spread opp reason eth gas ! 3 = spread"
  "sample_row ts pair spread opp reason eth gas ! 4 = opp"
  "sample_row ts pair spread opp reason eth gas ! 5 = reason"
  "sample_row ts pair spread opp reason eth gas ! 18 = ''uniswap''"
  "sample_row ts pair spread opp reason eth gas ! 19 = ''3000.0''"
  "sample_row ts pair spread opp reason eth gas ! 20 = ''sushiswap''"
  "sample_row ts pair spread opp reason eth gas ! 21 = ''3000.0''"
  "sample_row ts pair spread opp reason eth gas ! 27 = eth"
  "sample_row ts pair spread opp reason eth gas ! 28 = gas"
  by (simp_all add: sample_row_def eval_nat_numeral)

lemma sample_rt_simps [simp]:
  "py_float sample_rt = sample_float"
  "py_int sample_rt = sample_int"
  "fromisoformat sample_rt = sample_fromisoformat"
  "py_mean sample_rt = sample_mean"
  by (simp_all add: sample_rt_def)

lemma sections_simps [simp]:
  "sections ((xs, None) # ps) = (xs @ fst (sections ps), snd (sections ps))"
  "sections ((xs, Some e) # ps) = (xs, Some e)"
  by simp_all

lemma sections_say [simp]:
  "sections (say xs # ps) = (xs @ fst (sections ps), snd (sections ps))"
  by (simp add: say_def)

lemma sections_raises [simp]: "sections (raises e # ps) = ([], Some e)"
  by (simp add: raises_def)

lemma compute_simps [simp]:
  "compute (Inr x) f = f x"
  "compute (Inl e) f = raises e"
  by (simp_all add: compute_def)

section \<open>The strict variant fails fast (claim C8)\<close>

lemma convert_error: "convert rt row = Inl e \<Longrightarrow> e = ValueError"
  unfolding convert_def Let_def
  by (auto dest!: and_then_error dest: to_float_error to_int_error)

lemma convert_malformed:
  "py_float rt (row ! 3) = None \<or> py_int rt (row ! 4) = None \<or> py_float rt (row ! 27) = None
   \<Longrightarrow> convert rt row = Inl ValueError"
  unfolding convert_def Let_def
  by (cases "py_float rt (row ! 3)"; cases "py_int rt (row ! 4)"; cases "py_float rt (row ! 27)")
     auto

lemma process_row_error: "process_row rt st row = Inl e \<Longrightarrow> e = ValueError"
  unfolding process_row_def Let_def
  by (auto split: if_splits dest!: and_then_error dest: convert_error)

lemma process_row_malformed:
  "29 \<le> length row \<Longrightarrow>
   py_float rt (row ! 3) = None \<or> py_int rt (row ! 4) = None \<or> py_float rt (row ! 27) = None
   \<Longrightarrow> process_row rt st row = Inl ValueError"
  by (simp add: process_row_def Let_def convert_malformed)

lemma read_rows_append:
  "read_rows rt st (pre @ post) =
     (case read_rows rt st pre of Inl e \<Rightarrow> Inl e | Inr st' \<Rightarrow> read_rows rt st' post)"
  by (induction pre arbitrary: st) (auto split: sum.splits)

lemma read_rows_error: "read_rows rt st rows = Inl e \<Longrightarrow> e = ValueError"
  by (induction rows arbitrary: st) (auto split: sum.splits dest: process_row_error)

lemma read_rows_first_malformed:
  assumes "row \<in> set rows" "29 \<le> length row"
    "py_float rt (row ! 3) = None \<or> py_int rt (row ! 4) = None \<or> py_float rt (row ! 27) = None"
  shows "\<exists>pre bad post st'.
           rows = pre @ bad # post \<and> read_rows rt st pre = Inr st' \<and>
           process_row rt st' bad = Inl ValueError"
  using assms
proof (induction rows arbitrary: st)
  case Nil
  then show ?case by simp
next
  case (Cons r rows)
  show ?case
  proof (cases "process_row rt st r")
    case (Inl e)
    then have "e = ValueError" by (rule process_row_error)
    with Inl have "r # rows = [] @ r # rows \<and> read_rows rt st [] = Inr st \<and>
        process_row rt st r = Inl ValueError" by simp
    then show ?thesis by blast
  next
    case (Inr st1)
    then have "row \<noteq> r" using Cons.prems process_row_malformed[of row rt st] by auto
    then have "row \<in> set rows" using Cons.prems by simp
    from Cons.IH[OF this Cons.prems(2,3), of st1]
    obtain pre bad post st' where
      h: "rows = pre @ bad # post" "read_rows rt st1 pre = Inr st'"
         "process_row rt st' bad = Inl ValueError" by blast
    have "r # rows = (r # pre) @ bad # post \<and> read_rows rt st (r # pre) = Inr st' \<and>
        process_row rt st' bad = Inl ValueError" using h Inr by simp
    then show ?thesis by blast
  qed
qed

text \<open>
  Claim C8. In the first script, when the input holds a row of at least 29 fields whose
  spread, has-opportunity or ETH-price field does not convert, the run ends with
  ValueError and has printed nothing: no section of the report appears. The exception is
  raised in the read pass, at the first such row, after the rows before it were read.
\<close>

theorem strict_run_fails_without_output:
  assumes "row \<in> set rows" and "29 \<le> length row"
    and "py_float rt (row ! 3) = None \<or> py_int rt (row ! 4) = None \<or>
         py_float rt (row ! 27) = None"
  shows "analyze_csv rt rows = ([], Some ValueError) \<and>
         (\<exists>pre bad post st.
            rows = pre @ bad # post \<and> read_rows rt init pre = Inr st \<and>
            process_row rt st bad = Inl ValueError)"
proof -
  from read_rows_first_malformed[OF assms, of init]
  obtain pre bad post st where
    h: "rows = pre @ bad # post" "read_rows rt init pre = Inr st"
       "process_row rt st bad = Inl ValueError" by blast
  then have "read_rows rt init rows = Inl ValueError"
    by (simp add: read_rows_append)
  then have "analyze_csv rt rows = ([], Some ValueError)"
    by (simp add: analyze_csv_def compute_def raises_def)
  with h show ?thesis by blast
qed

text \<open>The theorem on three rows, the second of which has the spread \<^verbatim>\<open>abc\<close>.\<close>

theorem strict_run_fails_without_output_witness:
  "row_bad \<in> set [row_a, row_bad, row_b] \<and> 29 \<le> length row_bad \<and>
   py_float sample_rt (row_bad ! 3) = None \<and>
   analyze_csv sample_rt [row_a, row_bad, row_b] = ([], Some ValueError)"
proof -
  have h1: "row_bad \<in> set [row_a, row_bad, row_b]" by simp
  have h2: "29 \<le> length row_bad" by (simp add: row_bad_def)
  have h3: "py_float sample_rt (row_bad ! 3) = None"
    by (simp add: row_bad_def sample_float_def)
  from strict_run_fails_without_output[OF h1 h2, of sample_rt] h1 h2 h3
  show ?thesis by simp
qed

section \<open>The defensive variant on an input without records (claim C2)\<close>

text \<open>
  Claim C2 does not hold of the code. On an empty file \<^verbatim>\<open>next(reader)\<close> raises
  StopIteration before anything is printed. On a file that holds only its header row
  the statistics are all reported as 0, but the report is cut short: after the line that
  counts the explicit rejects, line 164 divides by \<^verbatim>\<open>total_scans\<close>, which is 0, and
  the run ends with ZeroDivisionError. Line 118 of the same script guards the same division
  with \<^verbatim>\<open>if total_scans > 0\<close>.
\<close>

theorem defensive_run_raises_without_records:
  "analyze_csv_new rt [] = ([], Some StopIteration) \<and>
   analyze_csv_new rt [header] =
     ([Title, TimeRange ''N/A'' ''N/A'', TotalRecords 0, ScanCount 0, MonitoringHours 0,
       OpportunitiesFound 0, OpportunityRate,
       SpreadStats (Fin 0) (Fin 0) (Fin 0) (Fin 0),
       EthStats (Fin 0) (Fin 0) (Fin 0), GasStats (Fin 0) (Fin 0) (Fin 0),
       TopCaseTitle, PairsTitle, RejectsTitle, NoExplicitRejects 0 0],
      Some ZeroDivisionError)"
  by (simp add: analyze_csv_new_def raises_def init_new_def report_new_def
      spread_stats_new_def price_stats_new_def overview_new_def hours_def
      eth_section_new_def fl_gt_def top_case_new_def pairs_new_def rejects_new_def say_def)

section \<open>The defensive variant skips a malformed row (claim C1)\<close>

lemma convert_new_error: "convert_new rt row = Inl e \<Longrightarrow> e = ValueError"
  unfolding convert_new_def Let_def
  by (auto dest!: and_then_error dest: to_float_error to_int_error split: if_splits)

lemma convert_new_raises_iff:
  "(\<exists>e. convert_new rt row = Inl e) \<longleftrightarrow>
     (row ! 1 \<noteq> [] \<and> py_int rt (row ! 1) = None) \<or>
     (row ! 3 \<noteq> [] \<and> py_float rt (row ! 3) = None) \<or>
     (row ! 4 \<noteq> [] \<and> py_int rt (row ! 4) = None) \<or>
     (28 < length row \<and> row ! 27 \<noteq> [] \<and> py_float rt (row ! 27) = None) \<or>
     (28 < length row \<and> row ! 28 \<noteq> [] \<and> py_float rt (row ! 28) = None) \<or>
     (length row = 28 \<and> row ! 27 \<noteq> [] \<and> py_float rt (row ! 27) = None)"
  unfolding convert_new_def Let_def
  by (cases "py_int rt (row ! 1)"; cases "py_float rt (row ! 3)"; cases "py_int rt (row ! 4)";
      cases "py_float rt (row ! 27)"; cases "py_float rt (row ! 28)") auto

lemma process_row_new_skip:
  "29 \<le> length row \<Longrightarrow> convert_new rt row = Inl e \<Longrightarrow>
   process_row_new rt st row = Inr (st\<lparr>total_scans := total_scans st + 1\<rparr>)"
  by (frule convert_new_error) (simp add: process_row_new_def Let_def)

lemma process_row_new_total: "\<exists>st'. process_row_new rt st row = Inr st'"
  by (cases "convert_new rt row")
     (auto simp: process_row_new_def Let_def dest: convert_new_error)

lemma read_rows_new_total: "\<exists>st'. read_rows_new rt st rows = Inr st'"
proof (induction rows arbitrary: st)
  case Nil
  then show ?case by simp
next
  case (Cons row rows)
  obtain st1 where "process_row_new rt st row = Inr st1"
    using process_row_new_total by blast
  then show ?case using Cons.IH[of st1] by simp
qed

lemma read_rows_new_append:
  "read_rows_new rt st (pre @ post) =
     (case read_rows_new rt st pre of Inl e \<Rightarrow> Inl e | Inr st' \<Rightarrow> read_rows_new rt st' post)"
  by (induction pre arbitrary: st) (auto split: sum.splits)

lemma update_new_total_scans:
  "update_new (st\<lparr>total_scans := n\<rparr>) row r = (update_new st row r)\<lparr>total_scans := n\<rparr>"
  by (cases r) (simp add: update_new_def)

lemma total_scans_update_new [simp]: "total_scans (update_new st row r) = total_scans st"
  by (cases r) (simp add: update_new_def)

lemma process_row_new_shift:
  "process_row_new rt st row = Inr st' \<Longrightarrow>
   process_row_new rt (st\<lparr>total_scans := total_scans st + k\<rparr>) row =
     Inr (st'\<lparr>total_scans := total_scans st' + k\<rparr>)"
  by (cases "convert_new rt row")
     (auto simp: process_row_new_def Let_def update_new_total_scans split: if_splits)

lemma read_rows_new_shift:
  "read_rows_new rt st rows = Inr st' \<Longrightarrow>
   read_rows_new rt (st\<lparr>total_scans := total_scans st + k\<rparr>) rows =
     Inr (st'\<lparr>total_scans := total_scans st' + k\<rparr>)"
proof (induction rows arbitrary: st)
  case Nil
  then show ?case by simp
next
  case (Cons row rows)
  obtain st1 where s1: "process_row_new rt st row = Inr st1"
    using process_row_new_total by blast
  with Cons.prems have "read_rows_new rt st1 rows = Inr st'" by simp
  from Cons.IH[OF this] process_row_new_shift[OF s1, of k] show ?case by simp
qed

lemma sample_row_nth_Suc_0 [simp]:
  "sample_row ts pair spread opp reason eth gas ! Suc 0 = ''1''"
  by (simp add: sample_row_def)

lemma convert_new_row_bad: "convert_new sample_rt row_bad = Inl ValueError"
  by (simp add: convert_new_def row_bad_def sample_int_def sample_float_def)

text \<open>
  Claim C1, as amended. In the second script a row of at least 29 fields for which a
  conversion raises is skipped: the exception is a ValueError, the handler catches it, and
  the only accumulator that changes is \<^verbatim>\<open>total_scans\<close>, which line 31 has already
  incremented before the \<^verbatim>\<open>try\<close> is entered. The pass goes on with the next row: over
  the whole pass, the accumulators end as they would without the row, except that
  \<^verbatim>\<open>total_scans\<close> is one more. So the row enters none of \<^verbatim>\<open>spreads\<close>,
  \<^verbatim>\<open>eth_prices\<close>, \<^verbatim>\<open>gas_prices\<close>, \<^verbatim>\<open>pair_spreads\<close>, \<^verbatim>\<open>reject_reasons\<close>,
  \<^verbatim>\<open>time_spreads\<close>, \<^verbatim>\<open>high_spread_cases\<close>, \<^verbatim>\<open>max_spread_entry\<close>, and the rows
  after it are aggregated as usual; but it does count toward \<^verbatim>\<open>total_scans\<close>.
\<close>

theorem defensive_skips_malformed_row:
  assumes "29 \<le> length row" and "convert_new rt row = Inl e"
  shows "e = ValueError \<and>
         process_row_new rt st row = Inr (st\<lparr>total_scans := total_scans st + 1\<rparr>) \<and>
         (\<exists>st'. read_rows_new rt st (pre @ post) = Inr st' \<and>
                read_rows_new rt st (pre @ row # post) =
                  Inr (st'\<lparr>total_scans := total_scans st' + 1\<rparr>))"
proof -
  obtain st1 where pre: "read_rows_new rt st pre = Inr st1"
    using read_rows_new_total by blast
  obtain st' where post: "read_rows_new rt st1 post = Inr st'"
    using read_rows_new_total by blast
  have skip: "process_row_new rt st1 row = Inr (st1\<lparr>total_scans := total_scans st1 + 1\<rparr>)"
    using assms by (rule process_row_new_skip)
  have "read_rows_new rt st (pre @ row # post) =
      read_rows_new rt (st1\<lparr>total_scans := total_scans st1 + 1\<rparr>) post"
    using pre skip by (simp add: read_rows_new_append)
  also have "\<dots> = Inr (st'\<lparr>total_scans := total_scans st' + 1\<rparr>)"
    using post by (rule read_rows_new_shift)
  finally have "read_rows_new rt st (pre @ row # post) =
      Inr (st'\<lparr>total_scans := total_scans st' + 1\<rparr>)" .
  moreover have "read_rows_new rt st (pre @ post) = Inr st'"
    using pre post by (simp add: read_rows_new_append)
  ultimately show ?thesis
    using convert_new_error[OF assms(2)] process_row_new_skip[OF assms, of st] by blast
qed

text \<open>The theorem on the row whose spread is \<^verbatim>\<open>abc\<close>, between two rows that convert.\<close>

theorem defensive_skips_malformed_row_witness:
  "29 \<le> length row_bad \<and> convert_new sample_rt row_bad = Inl ValueError \<and>
   (\<exists>st'. read_rows_new sample_rt init_new ([row_a] @ [row_b]) = Inr st' \<and>
          read_rows_new sample_rt init_new ([row_a] @ row_bad # [row_b]) =
            Inr (st'\<lparr>total_scans := total_scans st' + 1\<rparr>))"
proof -
  have h1: "29 \<le> length row_bad" by (simp add: row_bad_def)
  from defensive_skips_malformed_row[OF h1 convert_new_row_bad, of init_new "[row_a]" "[row_b]"]
    h1 convert_new_row_bad
  show ?thesis by blast
qed

text \<open>
  The claim as it was stated fails: the malformed row is counted. A pass over that one
  row leaves every accumulator empty and \<^verbatim>\<open>total_scans\<close> at 1.
\<close>

theorem malformed_row_is_counted_counterexample:
  "29 \<le> length row_bad \<and> convert_new sample_rt row_bad = Inl ValueError \<and>
   total_scans init_new = 0 \<and>
   read_rows_new sample_rt init_new [row_bad] = Inr (init_new\<lparr>total_scans := 1\<rparr>)"
  by (simp add: convert_new_row_bad process_row_new_def Let_def)
     (simp add: row_bad_def init_new_def)

section \<open>Reasoning about the read pass\<close>

text \<open>
  A property of the accumulators that holds at the start and is kept by every row holds
  after the pass; the rows read so far are the second argument of the property.
\<close>

lemma process_row_cases:
  assumes "process_row rt st row = Inr st'"
  obtains (short) "length row < 29" "st' = st"
  | (kept) r where "29 \<le> length row" "convert rt row = Inr r"
      "st' = update (st\<lparr>total_scans := total_scans st + 1\<rparr>) row r"
  using assms
  by (cases "convert rt row") (auto simp: process_row_def Let_def split: if_splits)

lemma process_row_new_cases:
  assumes "process_row_new rt st row = Inr st'"
  obtains (short) "length row < 29" "st' = st"
  | (skipped) e where "29 \<le> length row" "convert_new rt row = Inl e"
      "st' = st\<lparr>total_scans := total_scans st + 1\<rparr>"
  | (kept) r where "29 \<le> length row" "convert_new rt row = Inr r"
      "st' = update_new (st\<lparr>total_scans := total_scans st + 1\<rparr>) row r"
  using assms
  by (cases "convert_new rt row") (auto simp: process_row_new_def Let_def split: if_splits)

lemma read_rows_snoc:
  "read_rows rt st (rows @ [row]) = Inr st' \<longleftrightarrow>
     (\<exists>st1. read_rows rt st rows = Inr st1 \<and> process_row rt st1 row = Inr st')"
  by (auto simp: read_rows_append split: sum.splits)

lemma read_rows_new_snoc:
  "read_rows_new rt st (rows @ [row]) = Inr st' \<longleftrightarrow>
     (\<exists>st1. read_rows_new rt st rows = Inr st1 \<and> process_row_new rt st1 row = Inr st')"
  by (auto simp: read_rows_new_append split: sum.splits)

lemma read_rows_invariant:
  assumes run: "read_rows rt st0 rows = Inr st"
    and base: "P st0 []"
    and step: "\<And>st rows row st'. P st rows \<Longrightarrow> process_row rt st row = Inr st' \<Longrightarrow>
                 P st' (rows @ [row])"
  shows "P st rows"
  using run
proof (induction rows arbitrary: st rule: rev_induct)
  case Nil
  then show ?case using base by simp
next
  case (snoc row rows)
  then obtain st1 where "read_rows rt st0 rows = Inr st1" "process_row rt st1 row = Inr st"
    by (auto simp: read_rows_snoc)
  then show ?case using snoc.IH step by blast
qed

lemma read_rows_new_invariant:
  assumes run: "read_rows_new rt st0 rows = Inr st"
    and base: "P st0 []"
    and step: "\<And>st rows row st'. P st rows \<Longrightarrow> process_row_new rt st row = Inr st' \<Longrightarrow>
                 P st' (rows @ [row])"
  shows "P st rows"
  using run
proof (induction rows arbitrary: st rule: rev_induct)
  case Nil
  then show ?case using base by simp
next
  case (snoc row rows)
  then obtain st1 where
    "read_rows_new rt st0 rows = Inr st1" "process_row_new rt st1 row = Inr st"
    by (auto simp: read_rows_new_snoc)
  then show ?case using snoc.IH step by blast
qed

lemma strip_samples [simp]:
  "strip [] = []" "strip '' '' = []"
  "strip ''Not profitable after fees'' = ''Not profitable after fees''"
  by (simp_all add: strip_def isspace_def)

lemma convert_samples:
  "convert sample_rt row_a =
     Inr ((''2025-12-19T09:00:00Z'', Fin (1 / 4), ''WETH/USDT'', [], Fin 3000), 0)"
  "convert sample_rt row_b =
     Inr ((''2025-12-19T09:30:00Z'', Fin (3 / 4), ''WETH/USDC'',
           ''Not profitable after fees'', Fin 3000), 0)"
  "convert sample_rt row_c =
     Inr ((''2025-12-19T10:30:00Z'', Fin (3 / 4), ''WETH/USDT'', [], Fin 3000), 0)"
  by (simp_all add: convert_def row_a_def row_b_def row_c_def sample_float_def sample_int_def)

lemma convert_new_samples:
  "convert_new sample_rt row_a =
     Inr (''2025-12-19T09:00:00Z'', Fin (1 / 4), ''WETH/USDT'', [], Fin 3000, Fin 30, 0)"
  "convert_new sample_rt row_b =
     Inr (''2025-12-19T09:30:00Z'', Fin (3 / 4), ''WETH/USDC'',
          ''Not profitable after fees'', Fin 3000, Fin 30, 0)"
  "convert_new sample_rt row_c =
     Inr (''2025-12-19T10:30:00Z'', Fin (3 / 4), ''WETH/USDT'', [], Fin 3000, Fin 30, 0)"
  by (simp_all add: convert_new_def row_a_def row_b_def row_c_def sample_float_def
      sample_int_def)

lemma length_samples [simp]:
  "length row_a = 29" "length row_b = 29" "length row_c = 29" "length row_bad = 29"
  by (simp_all add: row_a_def row_b_def row_c_def row_bad_def)

lemma read_rows_samples: "read_rows sample_rt init [row_a, row_b, row_c] = Inr sample_state"
  by (simp add: process_row_def convert_samples update_def init_def sample_state_def
      fl_gt_def)

lemma read_rows_new_samples:
  "read_rows_new sample_rt init_new [row_a, row_bad, row_b, row_c] = Inr sample_state_new"
  by (simp add: process_row_new_def convert_new_samples convert_new_row_bad update_new_def
      init_new_def sample_state_new_def fl_gt_def fl_ge_def fl_le_def lit_0_17_def)

section \<open>The reject-reason table (claim C6)\<close>

lemma map_fst_incr:
  "map fst (incr k d) = (if k \<in> set (map fst d) then map fst d else map fst d @ [k])"
  by (induction d) (auto simp: rev_image_eqI)

lemma map_of_incr:
  "map_of (incr k d) = (map_of d)(k \<mapsto> (case map_of d k of None \<Rightarrow> 1 | Some c \<Rightarrow> c + 1))"
  by (induction d) (auto simp: fun_eq_iff)

lemma distinct_incr: "distinct (map fst d) \<Longrightarrow> distinct (map fst (incr k d))"
  by (simp add: map_fst_incr)

lemma convert_reason:
  "convert rt row = Inr ((ts, s, p, reason, eth), opp) \<Longrightarrow> reason = strip (row ! 5)"
  unfolding convert_def Let_def
  by (auto dest!: and_then_error simp: strip_def and_then_def split: sum.splits)

lemma convert_new_reason:
  "29 \<le> length row \<Longrightarrow> convert_new rt row = Inr (ts, s, p, reason, eth, gas, opp) \<Longrightarrow>
   reason = strip (row ! 5)"
  unfolding convert_new_def Let_def
  by (auto simp: strip_def and_then_def split: sum.splits if_splits)

lemma reject_reasons_update:
  assumes "convert rt row = Inr r"
  shows "reject_reasons (update st row r) =
     (if strip (row ! 5) \<noteq> [] then incr (strip (row ! 5)) (reject_reasons st)
      else reject_reasons st)"
proof -
  obtain e opp where r: "r = (e, opp)" by (cases r)
  obtain ts s p reason eth where e: "e = (ts, s, p, reason, eth)" by (cases e rule: prod_cases5)
  have "reason = strip (row ! 5)" using assms convert_reason unfolding r e by blast
  then show ?thesis by (simp add: update_def r e)
qed

lemma reject_reasons_update_new:
  assumes "29 \<le> length row" "convert_new rt row = Inr r"
  shows "reject_reasons (update_new st row r) =
     (if strip (row ! 5) \<noteq> [] then incr (strip (row ! 5)) (reject_reasons st)
      else reject_reasons st)"
proof -
  obtain ts s p reason eth gas opp where r: "r = (ts, s, p, reason, eth, gas, opp)"
    by (cases r rule: prod_cases7)
  have "reason = strip (row ! 5)" using assms convert_new_reason unfolding r by blast
  then show ?thesis by (simp add: update_new_def r)
qed

lemma reason_table_empty: "reason_table kept [] []"
  by (simp add: reason_table_def)

lemma reason_table_pass:
  "\<not> kept row \<Longrightarrow> reason_table kept rows d \<Longrightarrow> reason_table kept (rows @ [row]) d"
  by (simp add: reason_table_def)

lemma reason_table_blank:
  "strip (row ! 5) = [] \<Longrightarrow> reason_table kept rows d \<Longrightarrow> reason_table kept (rows @ [row]) d"
  by (auto simp: reason_table_def Let_def)

lemma reason_table_incr:
  assumes "kept row" "strip (row ! 5) \<noteq> []" "reason_table kept rows d"
  shows "reason_table kept (rows @ [row]) (incr (strip (row ! 5)) d)"
  using assms
  by (auto simp: reason_table_def Let_def map_of_incr distinct_incr)

lemma reject_reasons_table:
  assumes "read_rows rt init rows = Inr st"
  shows "reason_table (\<lambda>row. 29 \<le> length row) rows (reject_reasons st)"
proof (rule read_rows_invariant[OF assms,
      where P = "\<lambda>st rows. reason_table (\<lambda>row. 29 \<le> length row) rows (reject_reasons st)"])
  show "reason_table (\<lambda>row. 29 \<le> length row) [] (reject_reasons init)"
    by (simp add: init_def reason_table_empty)
next
  fix st rows row st'
  assume ih: "reason_table (\<lambda>row. 29 \<le> length row) rows (reject_reasons st)"
    and step: "process_row rt st row = Inr st'"
  from step show "reason_table (\<lambda>row. 29 \<le> length row) (rows @ [row]) (reject_reasons st')"
  proof (cases rule: process_row_cases)
    case short
    with ih show ?thesis by (simp add: reason_table_pass)
  next
    case (kept r)
    with ih show ?thesis
      by (simp add: reject_reasons_update reason_table_blank reason_table_incr)
  qed
qed

lemma reject_reasons_table_new:
  assumes "read_rows_new rt init_new rows = Inr st"
  shows "reason_table (\<lambda>row. 29 \<le> length row \<and> \<not> isl (convert_new rt row)) rows
     (reject_reasons st)"
proof (rule read_rows_new_invariant[OF assms,
      where P = "\<lambda>st rows. reason_table
        (\<lambda>row. 29 \<le> length row \<and> \<not> isl (convert_new rt row)) rows (reject_reasons st)"])
  show "reason_table (\<lambda>row. 29 \<le> length row \<and> \<not> isl (convert_new rt row)) []
      (reject_reasons init_new)"
    by (simp add: init_new_def reason_table_empty)
next
  fix st rows row st'
  let ?kept = "\<lambda>row. 29 \<le> length row \<and> \<not> isl (convert_new rt row)"
  assume ih: "reason_table ?kept rows (reject_reasons st)"
    and step: "process_row_new rt st row = Inr st'"
  from step show "reason_table ?kept (rows @ [row]) (reject_reasons st')"
  proof (cases rule: process_row_new_cases)
    case short
    with ih show ?thesis by (simp add: reason_table_pass)
  next
    case (skipped e)
    with ih show ?thesis by (simp add: reason_table_pass)
  next
    case (kept r)
    then have "?kept row" by simp
    with kept ih show ?thesis
      by (simp add: reject_reasons_update_new reason_table_blank reason_table_incr)
  qed
qed

lemma reason_table_no_empty_key:
  assumes "reason_table kept rows d"
  shows "[] \<notin> fst ` set d"
proof -
  have "map_of d [] = None" using assms by (simp add: reason_table_def)
  then show ?thesis by (simp add: map_of_eq_None_iff)
qed

text \<open>
  Claim C6. In both scripts, after the read pass, the reject-reason table has no
  empty-string key. Its keys are distinct, and the count under a key is the number of
  aggregated rows whose reason, trimmed of white space, is that key; a reason that is
  empty after trimming, and so every row with an empty reason field, contributes nothing.
  In the first script the aggregated rows are those of at least 29 fields (the pass having
  succeeded, all of them converted); in the second they are those of at least 29 fields
  whose conversions succeed.
\<close>

theorem reject_reasons_no_empty_key:
  "(read_rows rt init rows = Inr st \<longrightarrow>
      [] \<notin> fst ` set (reject_reasons st) \<and> distinct (map fst (reject_reasons st)) \<and>
      (\<forall>k. map_of (reject_reasons st) k =
         (let n = length (filter (\<lambda>row. 29 \<le> length row \<and> strip (row ! 5) = k) rows)
          in if k = [] \<or> n = 0 then None else Some n))) \<and>
   (read_rows_new rt init_new rows = Inr st2 \<longrightarrow>
      [] \<notin> fst ` set (reject_reasons st2) \<and> distinct (map fst (reject_reasons st2)) \<and>
      (\<forall>k. map_of (reject_reasons st2) k =
         (let n = length (filter (\<lambda>row. (29 \<le> length row \<and> \<not> isl (convert_new rt row)) \<and>
                                     strip (row ! 5) = k) rows)
          in if k = [] \<or> n = 0 then None else Some n)))"
proof (intro conjI impI)
  assume run: "read_rows rt init rows = Inr st"
  note t = reject_reasons_table[OF run]
  show "[] \<notin> fst ` set (reject_reasons st)" using t by (rule reason_table_no_empty_key)
  show "distinct (map fst (reject_reasons st))" using t by (simp add: reason_table_def)
  show "\<forall>k. map_of (reject_reasons st) k =
         (let n = length (filter (\<lambda>row. 29 \<le> length row \<and> strip (row ! 5) = k) rows)
          in if k = [] \<or> n = 0 then None else Some n)"
    using t unfolding reason_table_def by blast
next
  assume run: "read_rows_new rt init_new rows = Inr st2"
  note t = reject_reasons_table_new[OF run]
  show "[] \<notin> fst ` set (reject_reasons st2)" using t by (rule reason_table_no_empty_key)
  show "distinct (map fst (reject_reasons st2))" using t by (simp add: reason_table_def)
  show "\<forall>k. map_of (reject_reasons st2) k =
         (let n = length (filter (\<lambda>row. (29 \<le> length row \<and> \<not> isl (convert_new rt row)) \<and>
                                     strip (row ! 5) = k) rows)
          in if k = [] \<or> n = 0 then None else Some n)"
    using t unfolding reason_table_def by blast
qed

text \<open>
  The theorem on the sample rows: one row has no reason, one has a reason of a single
  space, and one is not profitable after fees.
\<close>

theorem reject_reasons_no_empty_key_witness:
  "read_rows sample_rt init [row_a, row_b, row_c] = Inr sample_state \<and>
   read_rows_new sample_rt init_new [row_a, row_bad, row_b, row_c] = Inr sample_state_new \<and>
   reject_reasons sample_state = [(''Not profitable after fees'', 1)] \<and>
   reject_reasons sample_state_new = [(''Not profitable after fees'', 1)] \<and>
   [] \<notin> fst ` set (reject_reasons sample_state) \<and>
   [] \<notin> fst ` set (reject_reasons sample_state_new)"
  using reject_reasons_no_empty_key[of sample_rt "[row_a, row_b, row_c]" sample_state]
    reject_reasons_no_empty_key[of sample_rt "[row_a, row_bad, row_b, row_c]" _ sample_state_new]
    read_rows_samples read_rows_new_samples
  by (simp add: sample_state_def sample_state_new_def)

section \<open>The running maximum (claims C4 and C10)\<close>

lemma not_ge_of_lt: "fl_gt s m \<Longrightarrow> \<not> fl_gt x m \<Longrightarrow> \<not> fl_ge x s"
  by (cases m; cases s; cases x) (auto simp: fl_gt_def fl_ge_def fl_le_def)

lemma not_gt_of_lt: "fl_gt s m \<Longrightarrow> \<not> fl_gt x m \<Longrightarrow> \<not> fl_gt x s"
  by (cases m; cases s; cases x) (auto simp: fl_gt_def)

lemma not_gt_of_not_ge: "\<not> fl_ge x m \<Longrightarrow> \<not> fl_gt x m"
  by (auto simp: fl_gt_def fl_ge_def fl_le_def)

lemma fl_gt_trans: "fl_gt s m \<Longrightarrow> fl_gt m z \<Longrightarrow> fl_gt s z"
  unfolding fl_gt_def by (rule fl_lt_trans)

lemma first_maximum_NoneI:
  "(\<And>r s. r \<in> set rows \<Longrightarrow> sp r = Some s \<Longrightarrow> \<not> fl_gt s (Fin 0)) \<Longrightarrow>
   first_maximum sp rows (Fin 0) None"
  unfolding first_maximum_def by simp

lemma first_maximum_NoneD:
  "first_maximum sp rows m None \<Longrightarrow>
   m = Fin 0 \<and> (\<forall>r\<in>set rows. \<forall>s. sp r = Some s \<longrightarrow> \<not> fl_gt s (Fin 0))"
  unfolding first_maximum_def by simp

lemma first_maximum_SomeI:
  assumes "sp e = Some m" "fl_gt m (Fin 0)" "rows = pre @ e # post"
    "\<And>r s. r \<in> set pre \<Longrightarrow> sp r = Some s \<Longrightarrow> \<not> fl_ge s m"
    "\<And>r s. r \<in> set post \<Longrightarrow> sp r = Some s \<Longrightarrow> \<not> fl_gt s m"
  shows "first_maximum sp rows m (Some e)"
proof -
  have "\<exists>pre post. rows = pre @ e # post \<and>
      (\<forall>r\<in>set pre. \<forall>s. sp r = Some s \<longrightarrow> \<not> fl_ge s m) \<and>
      (\<forall>r\<in>set post. \<forall>s. sp r = Some s \<longrightarrow> \<not> fl_gt s m)"
    apply (rule exI[of _ pre])
    apply (rule exI[of _ post])
    using assms(3,4,5) apply blast
    done
  with assms(1,2) show ?thesis unfolding first_maximum_def by simp
qed

lemma first_maximum_SomeE:
  assumes "first_maximum sp rows m (Some e)"
  obtains pre post where "sp e = Some m" "fl_gt m (Fin 0)" "rows = pre @ e # post"
    "\<And>r s. r \<in> set pre \<Longrightarrow> sp r = Some s \<Longrightarrow> \<not> fl_ge s m"
    "\<And>r s. r \<in> set post \<Longrightarrow> sp r = Some s \<Longrightarrow> \<not> fl_gt s m"
proof -
  from assms have a: "sp e = Some m" "fl_gt m (Fin 0)"
    and b: "\<exists>pre post. rows = pre @ e # post \<and>
      (\<forall>r\<in>set pre. \<forall>s. sp r = Some s \<longrightarrow> \<not> fl_ge s m) \<and>
      (\<forall>r\<in>set post. \<forall>s. sp r = Some s \<longrightarrow> \<not> fl_gt s m)"
    unfolding first_maximum_def by simp_all
  from b obtain pre post where "rows = pre @ e # post"
    "\<forall>r\<in>set pre. \<forall>s. sp r = Some s \<longrightarrow> \<not> fl_ge s m"
    "\<forall>r\<in>set post. \<forall>s. sp r = Some s \<longrightarrow> \<not> fl_gt s m" by blast
  with a that show thesis by blast
qed

lemma first_maximum_start: "first_maximum sp [] (Fin 0) None"
  by (rule first_maximum_NoneI) simp

lemma first_maximum_all:
  assumes inv: "first_maximum sp rows m entry" and r: "r \<in> set rows" "sp r = Some x"
  shows "\<not> fl_gt x m"
proof (cases entry)
  case None
  with inv have "m = Fin 0 \<and> (\<forall>r\<in>set rows. \<forall>s. sp r = Some s \<longrightarrow> \<not> fl_gt s (Fin 0))"
    by (simp add: first_maximum_NoneD)
  with r show ?thesis by blast
next
  case (Some e)
  with inv have "first_maximum sp rows m (Some e)" by simp
  then show ?thesis
  proof (rule first_maximum_SomeE)
    fix pre post
    assume h: "sp e = Some m" "rows = pre @ e # post"
      "\<And>r s. r \<in> set pre \<Longrightarrow> sp r = Some s \<Longrightarrow> \<not> fl_ge s m"
      "\<And>r s. r \<in> set post \<Longrightarrow> sp r = Some s \<Longrightarrow> \<not> fl_gt s m"
    from r(1) h(2) consider "r \<in> set pre" | "r = e" | "r \<in> set post" by auto
    then show ?thesis
    proof cases
      case 1
      then have "\<not> fl_ge x m" using h(3) r(2) by blast
      then show ?thesis by (rule not_gt_of_not_ge)
    next
      case 2
      then have "x = m" using h(1) r(2) by simp
      then show ?thesis by (simp add: fl_gt_def)
    next
      case 3
      then show ?thesis using h(4) r(2) by blast
    qed
  qed
qed

lemma first_maximum_nonneg:
  assumes "first_maximum sp rows m entry"
  shows "m = Fin 0 \<or> fl_gt m (Fin 0)"
proof (cases entry)
  case None
  with assms show ?thesis by (simp add: first_maximum_NoneD)
next
  case (Some e)
  with assms have "first_maximum sp rows m (Some e)" by simp
  then show ?thesis by (rule first_maximum_SomeE) simp
qed

lemma first_maximum_unchanged:
  assumes inv: "first_maximum sp rows m entry"
    and row: "\<And>s. sp row = Some s \<Longrightarrow> \<not> fl_gt s m"
  shows "first_maximum sp (rows @ [row]) m entry"
proof (cases entry)
  case None
  with inv have n: "m = Fin 0" "\<forall>r\<in>set rows. \<forall>s. sp r = Some s \<longrightarrow> \<not> fl_gt s (Fin 0)"
    by (simp_all add: first_maximum_NoneD)
  have "first_maximum sp (rows @ [row]) (Fin 0) None"
  proof (rule first_maximum_NoneI)
    fix r s assume "r \<in> set (rows @ [row])" "sp r = Some s"
    then show "\<not> fl_gt s (Fin 0)" using n row by auto
  qed
  with None n(1) show ?thesis by simp
next
  case (Some e)
  with inv have "first_maximum sp rows m (Some e)" by simp
  then have "first_maximum sp (rows @ [row]) m (Some e)"
  proof (rule first_maximum_SomeE)
    fix pre post
    assume h: "sp e = Some m" "fl_gt m (Fin 0)" "rows = pre @ e # post"
      "\<And>r s. r \<in> set pre \<Longrightarrow> sp r = Some s \<Longrightarrow> \<not> fl_ge s m"
      "\<And>r s. r \<in> set post \<Longrightarrow> sp r = Some s \<Longrightarrow> \<not> fl_gt s m"
    show ?thesis
    proof (rule first_maximum_SomeI[where pre = pre and post = "post @ [row]"])
      show "sp e = Some m" by fact
      show "fl_gt m (Fin 0)" by fact
      show "rows @ [row] = pre @ e # post @ [row]" using h(3) by simp
      show "\<And>r s. r \<in> set pre \<Longrightarrow> sp r = Some s \<Longrightarrow> \<not> fl_ge s m" by fact
      show "\<And>r s. r \<in> set (post @ [row]) \<Longrightarrow> sp r = Some s \<Longrightarrow> \<not> fl_gt s m"
        using h(5) row by auto
    qed
  qed
  with Some show ?thesis by simp
qed

lemma first_maximum_replace:
  assumes inv: "first_maximum sp rows m entry" and row: "sp row = Some s" "fl_gt s m"
  shows "first_maximum sp (rows @ [row]) s (Some row)"
proof (rule first_maximum_SomeI[where pre = rows and post = "[]"])
  show "sp row = Some s" by fact
  show "fl_gt s (Fin 0)"
    using first_maximum_nonneg[OF inv] row(2) fl_gt_trans by blast
  show "rows @ [row] = rows @ row # []" by simp
  show "\<And>r x. r \<in> set rows \<Longrightarrow> sp r = Some x \<Longrightarrow> \<not> fl_ge x s"
    using first_maximum_all[OF inv] not_ge_of_lt[OF row(2)] by blast
  show "\<And>r x. r \<in> set [] \<Longrightarrow> sp r = Some x \<Longrightarrow> \<not> fl_gt x s" by simp
qed

lemma first_maximum_step:
  assumes "first_maximum sp rows m entry"
  shows "first_maximum sp (rows @ [row])
           (case sp row of None \<Rightarrow> m | Some s \<Rightarrow> if fl_gt s m then s else m)
           (case sp row of None \<Rightarrow> entry | Some s \<Rightarrow> if fl_gt s m then Some row else entry)"
proof (cases "sp row")
  case None
  then show ?thesis using first_maximum_unchanged[OF assms, of row] by simp
next
  case (Some s)
  show ?thesis
  proof (cases "fl_gt s m")
    case True
    with Some first_maximum_replace[OF assms Some True] show ?thesis by simp
  next
    case False
    with Some first_maximum_unchanged[OF assms, of row] show ?thesis by simp
  qed
qed

lemma update_max:
  "max_spread (update st row r) =
     (if fl_gt (entry_spread (fst r)) (max_spread st) then entry_spread (fst r)
      else max_spread st) \<and>
   max_spread_entry (update st row r) =
     (if fl_gt (entry_spread (fst r)) (max_spread st) then Some row
      else max_spread_entry st)"
proof -
  obtain e opp where r: "r = (e, opp)" by (cases r)
  obtain ts s p reason eth where e: "e = (ts, s, p, reason, eth)" by (cases e rule: prod_cases5)
  show ?thesis by (simp add: update_def r e entry_spread_def)
qed

lemma update_new_max:
  "max_spread (update_new st row r) =
     (if fl_gt (entry_spread_new r) (max_spread st) then entry_spread_new r
      else max_spread st) \<and>
   max_spread_entry (update_new st row r) =
     (if fl_gt (entry_spread_new r) (max_spread st) then Some row
      else max_spread_entry st)"
proof -
  obtain ts s p reason eth gas opp where r: "r = (ts, s, p, reason, eth, gas, opp)"
    by (cases r rule: prod_cases7)
  show ?thesis by (simp add: update_new_def r entry_spread_new_def)
qed

lemma process_row_max:
  assumes "process_row rt st row = Inr st'"
  shows "max_spread st' =
           (case kept_spread rt row of
              None \<Rightarrow> max_spread st
            | Some s \<Rightarrow> if fl_gt s (max_spread st) then s else max_spread st)"
    and "max_spread_entry st' =
           (case kept_spread rt row of
              None \<Rightarrow> max_spread_entry st
            | Some s \<Rightarrow> if fl_gt s (max_spread st) then Some row else max_spread_entry st)"
  using assms
  by (cases rule: process_row_cases; simp add: kept_spread_def update_max)+

lemma process_row_new_max:
  assumes "process_row_new rt st row = Inr st'"
  shows "max_spread st' =
           (case kept_spread_new rt row of
              None \<Rightarrow> max_spread st
            | Some s \<Rightarrow> if fl_gt s (max_spread st) then s else max_spread st)"
    and "max_spread_entry st' =
           (case kept_spread_new rt row of
              None \<Rightarrow> max_spread_entry st
            | Some s \<Rightarrow> if fl_gt s (max_spread st) then Some row else max_spread_entry st)"
  using assms
  by (cases rule: process_row_new_cases; simp add: kept_spread_new_def update_new_max)+

lemma read_rows_first_maximum:
  assumes "read_rows rt init rows = Inr st"
  shows "first_maximum (kept_spread rt) rows (max_spread st) (max_spread_entry st)"
proof (rule read_rows_invariant[OF assms,
      where P = "\<lambda>st rows.
        first_maximum (kept_spread rt) rows (max_spread st) (max_spread_entry st)"])
  show "first_maximum (kept_spread rt) [] (max_spread init) (max_spread_entry init)"
    by (simp add: init_def first_maximum_start)
next
  fix st rows row st'
  assume "first_maximum (kept_spread rt) rows (max_spread st) (max_spread_entry st)"
    and "process_row rt st row = Inr st'"
  then show "first_maximum (kept_spread rt) (rows @ [row]) (max_spread st')
      (max_spread_entry st')"
    using first_maximum_step[of "kept_spread rt" rows "max_spread st" "max_spread_entry st" row]
    by (simp add: process_row_max)
qed

lemma read_rows_new_first_maximum:
  assumes "read_rows_new rt init_new rows = Inr st"
  shows "first_maximum (kept_spread_new rt) rows (max_spread st) (max_spread_entry st)"
proof (rule read_rows_new_invariant[OF assms,
      where P = "\<lambda>st rows.
        first_maximum (kept_spread_new rt) rows (max_spread st) (max_spread_entry st)"])
  show "first_maximum (kept_spread_new rt) [] (max_spread init_new)
      (max_spread_entry init_new)"
    by (simp add: init_new_def first_maximum_start)
next
  fix st rows row st'
  assume "first_maximum (kept_spread_new rt) rows (max_spread st) (max_spread_entry st)"
    and "process_row_new rt st row = Inr st'"
  then show "first_maximum (kept_spread_new rt) (rows @ [row]) (max_spread st')
      (max_spread_entry st')"
    using first_maximum_step[of "kept_spread_new rt" rows "max_spread st"
        "max_spread_entry st" row]
    by (simp add: process_row_new_max)
qed

lemma first_maximum_explicit:
  assumes "first_maximum sp rows m entry"
  shows "case entry of
           None \<Rightarrow> \<forall>r\<in>set rows. \<forall>s. sp r = Some s \<longrightarrow> \<not> fl_gt s (Fin 0)
         | Some e \<Rightarrow>
             sp e = Some m \<and>
             (\<exists>pre post. rows = pre @ e # post \<and>
                (\<forall>r\<in>set pre. \<forall>s. sp r = Some s \<longrightarrow> \<not> fl_ge s m) \<and>
                (\<forall>r\<in>set post. \<forall>s. sp r = Some s \<longrightarrow> \<not> fl_gt s m))"
  using assms unfolding first_maximum_def by (cases entry) simp_all

lemma kept_spread_samples:
  "kept_spread sample_rt row_a = Some (Fin (1 / 4))"
  "kept_spread sample_rt row_b = Some (Fin (3 / 4))"
  "kept_spread sample_rt row_c = Some (Fin (3 / 4))"
  "kept_spread_new sample_rt row_a = Some (Fin (1 / 4))"
  "kept_spread_new sample_rt row_b = Some (Fin (3 / 4))"
  "kept_spread_new sample_rt row_c = Some (Fin (3 / 4))"
  "kept_spread_new sample_rt row_bad = None"
  by (simp_all add: kept_spread_def kept_spread_new_def convert_samples convert_new_samples
      convert_new_row_bad entry_spread_def entry_spread_new_def)

text \<open>
  Claim C4. In both scripts a row replaces the running maximum, and becomes
  \<^verbatim>\<open>max_spread_entry\<close>, exactly when it is aggregated and its spread is strictly
  greater than the running maximum; otherwise both are left as they were. As a
  consequence, after the pass the recorded row (if there is one) carries the maximum
  spread, no aggregated row before it in the input has a spread that reaches the maximum,
  and no aggregated row after it has one that exceeds it: of several rows with the
  maximum spread, the first in input order is the one retained.
\<close>

theorem max_spread_entry_first_maximum:
  "(process_row rt st row = Inr st' \<longrightarrow>
      (max_spread st', max_spread_entry st') =
        (case kept_spread rt row of
           None \<Rightarrow> (max_spread st, max_spread_entry st)
         | Some s \<Rightarrow>
             if fl_gt s (max_spread st) then (s, Some row)
             else (max_spread st, max_spread_entry st))) \<and>
   (process_row_new rt stn row = Inr stn' \<longrightarrow>
      (max_spread stn', max_spread_entry stn') =
        (case kept_spread_new rt row of
           None \<Rightarrow> (max_spread stn, max_spread_entry stn)
         | Some s \<Rightarrow>
             if fl_gt s (max_spread stn) then (s, Some row)
             else (max_spread stn, max_spread_entry stn))) \<and>
   (read_rows rt init rows = Inr final \<longrightarrow>
      (case max_spread_entry final of
         None \<Rightarrow> \<forall>r\<in>set rows. \<forall>s. kept_spread rt r = Some s \<longrightarrow> \<not> fl_gt s (Fin 0)
       | Some e \<Rightarrow>
           kept_spread rt e = Some (max_spread final) \<and>
           (\<exists>pre post. rows = pre @ e # post \<and>
              (\<forall>r\<in>set pre. \<forall>s. kept_spread rt r = Some s \<longrightarrow>
                 \<not> fl_ge s (max_spread final)) \<and>
              (\<forall>r\<in>set post. \<forall>s. kept_spread rt r = Some s \<longrightarrow>
                 \<not> fl_gt s (max_spread final))))) \<and>
   (read_rows_new rt init_new rows = Inr finaln \<longrightarrow>
      (case max_spread_entry finaln of
         None \<Rightarrow> \<forall>r\<in>set rows. \<forall>s. kept_spread_new rt r = Some s \<longrightarrow> \<not> fl_gt s (Fin 0)
       | Some e \<Rightarrow>
           kept_spread_new rt e = Some (max_spread finaln) \<and>
           (\<exists>pre post. rows = pre @ e # post \<and>
              (\<forall>r\<in>set pre. \<forall>s. kept_spread_new rt r = Some s \<longrightarrow>
                 \<not> fl_ge s (max_spread finaln)) \<and>
              (\<forall>r\<in>set post. \<forall>s. kept_spread_new rt r = Some s \<longrightarrow>
                 \<not> fl_gt s (max_spread finaln)))))"
proof (intro conjI impI)
  assume a: "process_row rt st row = Inr st'"
  show "(max_spread st', max_spread_entry st') =
        (case kept_spread rt row of
           None \<Rightarrow> (max_spread st, max_spread_entry st)
         | Some s \<Rightarrow>
             if fl_gt s (max_spread st) then (s, Some row)
             else (max_spread st, max_spread_entry st))"
    by (simp add: process_row_max[OF a] split: option.split)
next
  assume a: "process_row_new rt stn row = Inr stn'"
  show "(max_spread stn', max_spread_entry stn') =
        (case kept_spread_new rt row of
           None \<Rightarrow> (max_spread stn, max_spread_entry stn)
         | Some s \<Rightarrow>
             if fl_gt s (max_spread stn) then (s, Some row)
             else (max_spread stn, max_spread_entry stn))"
    by (simp add: process_row_new_max[OF a] split: option.split)
next
  assume "read_rows rt init rows = Inr final"
  then show "case max_spread_entry final of
         None \<Rightarrow> \<forall>r\<in>set rows. \<forall>s. kept_spread rt r = Some s \<longrightarrow> \<not> fl_gt s (Fin 0)
       | Some e \<Rightarrow>
           kept_spread rt e = Some (max_spread final) \<and>
           (\<exists>pre post. rows = pre @ e # post \<and>
              (\<forall>r\<in>set pre. \<forall>s. kept_spread rt r = Some s \<longrightarrow>
                 \<not> fl_ge s (max_spread final)) \<and>
              (\<forall>r\<in>set post. \<forall>s. kept_spread rt r = Some s \<longrightarrow>
                 \<not> fl_gt s (max_spread final)))"
    by (intro first_maximum_explicit read_rows_first_maximum)
next
  assume "read_rows_new rt init_new rows = Inr finaln"
  then show "case max_spread_entry finaln of
         None \<Rightarrow> \<forall>r\<in>set rows. \<forall>s. kept_spread_new rt r = Some s \<longrightarrow> \<not> fl_gt s (Fin 0)
       | Some e \<Rightarrow>
           kept_spread_new rt e = Some (max_spread finaln) \<and>
           (\<exists>pre post. rows = pre @ e # post \<and>
              (\<forall>r\<in>set pre. \<forall>s. kept_spread_new rt r = Some s \<longrightarrow>
                 \<not> fl_ge s (max_spread finaln)) \<and>
              (\<forall>r\<in>set post. \<forall>s. kept_spread_new rt r = Some s \<longrightarrow>
                 \<not> fl_gt s (max_spread finaln)))"
    by (intro first_maximum_explicit read_rows_new_first_maximum)
qed

text \<open>
  The theorem on the sample rows: \<open>row_b\<close> and \<open>row_c\<close> both have the spread 0.75, and
  \<open>row_b\<close>, the earlier one, is retained.
\<close>

theorem max_spread_entry_first_maximum_witness:
  "read_rows sample_rt init [row_a, row_b, row_c] = Inr sample_state \<and>
   read_rows_new sample_rt init_new [row_a, row_bad, row_b, row_c] = Inr sample_state_new \<and>
   kept_spread sample_rt row_b = Some (Fin (3 / 4)) \<and>
   kept_spread sample_rt row_c = Some (Fin (3 / 4)) \<and>
   max_spread_entry sample_state = Some row_b \<and>
   max_spread_entry sample_state_new = Some row_b \<and>
   (\<exists>pre post. [row_a, row_b, row_c] = pre @ row_b # post \<and>
      (\<forall>r\<in>set pre. \<forall>s. kept_spread sample_rt r = Some s \<longrightarrow> \<not> fl_ge s (Fin (3 / 4))) \<and>
      (\<forall>r\<in>set post. \<forall>s. kept_spread sample_rt r = Some s \<longrightarrow> \<not> fl_gt s (Fin (3 / 4)))) \<and>
   (\<exists>pre post. [row_a, row_bad, row_b, row_c] = pre @ row_b # post \<and>
      (\<forall>r\<in>set pre. \<forall>s. kept_spread_new sample_rt r = Some s \<longrightarrow>
         \<not> fl_ge s (Fin (3 / 4))) \<and>
      (\<forall>r\<in>set post. \<forall>s. kept_spread_new sample_rt r = Some s \<longrightarrow>
         \<not> fl_gt s (Fin (3 / 4))))"
proof -
  have e: "max_spread_entry sample_state = Some row_b" "max_spread sample_state = Fin (3 / 4)"
    "max_spread_entry sample_state_new = Some row_b"
    "max_spread sample_state_new = Fin (3 / 4)"
    by (simp_all add: sample_state_def sample_state_new_def)
  from max_spread_entry_first_maximum[of sample_rt _ _ _ _ _ "[row_a, row_b, row_c]"
      sample_state] read_rows_samples e
  have one: "\<exists>pre post. [row_a, row_b, row_c] = pre @ row_b # post \<and>
      (\<forall>r\<in>set pre. \<forall>s. kept_spread sample_rt r = Some s \<longrightarrow> \<not> fl_ge s (Fin (3 / 4))) \<and>
      (\<forall>r\<in>set post. \<forall>s. kept_spread sample_rt r = Some s \<longrightarrow> \<not> fl_gt s (Fin (3 / 4)))"
    by simp
  from max_spread_entry_first_maximum[of sample_rt _ _ _ _ _ "[row_a, row_bad, row_b, row_c]"
      _ sample_state_new] read_rows_new_samples e
  have two: "\<exists>pre post. [row_a, row_bad, row_b, row_c] = pre @ row_b # post \<and>
      (\<forall>r\<in>set pre. \<forall>s. kept_spread_new sample_rt r = Some s \<longrightarrow>
         \<not> fl_ge s (Fin (3 / 4))) \<and>
      (\<forall>r\<in>set post. \<forall>s. kept_spread_new sample_rt r = Some s \<longrightarrow>
         \<not> fl_gt s (Fin (3 / 4)))"
    by simp
  show ?thesis
    using one two e read_rows_samples read_rows_new_samples kept_spread_samples(2,3)
    by (intro conjI) assumption+
qed

section \<open>No recorded row without a positive spread (claim C10)\<close>

lemma first_maximum_entry:
  assumes "first_maximum sp rows m (Some e)"
  shows "e \<in> set rows \<and> sp e = Some m \<and> fl_gt m (Fin 0)"
  using assms by (rule first_maximum_SomeE) simp

lemma not_le_and_gt: "fl_le s (Fin 0) \<Longrightarrow> \<not> fl_gt s (Fin 0)"
  by (cases s) (auto simp: fl_le_def fl_gt_def)

lemma first_maximum_positive:
  assumes "first_maximum sp rows m entry"
  shows "entry = None \<or>
         (\<exists>e s. entry = Some e \<and> e \<in> set rows \<and> sp e = Some s \<and> fl_gt s (Fin 0))"
proof (cases entry)
  case None
  then show ?thesis by simp
next
  case (Some e)
  with assms first_maximum_entry[of sp rows m e] show ?thesis by blast
qed

lemma first_maximum_none:
  assumes "first_maximum sp rows m entry"
    and "\<forall>r\<in>set rows. \<forall>s. sp r = Some s \<longrightarrow> fl_le s (Fin 0)"
  shows "entry = None"
proof (cases entry)
  case None
  then show ?thesis .
next
  case (Some e)
  with assms(1) first_maximum_entry[of sp rows m e]
  have "e \<in> set rows" "sp e = Some m" "fl_gt m (Fin 0)" by simp_all
  with assms(2) not_le_and_gt[of m] show ?thesis by blast
qed

lemma top_case_None: "top_case rt None = ([TopCaseTitle], None)"
  by (simp add: top_case_def say_def)

lemma top_case_new_None: "top_case_new rt None = ([TopCaseTitle], None)"
  by (simp add: top_case_new_def say_def)

lemma convert_zero_neg:
  "convert sample_rt row_zero = Inr ((''2025-12-19T09:00:00Z'', Fin 0, ''WETH/USDT'', [], Fin 3000), 0)"
  "convert sample_rt row_neg =
     Inr ((''2025-12-19T10:30:00Z'', Fin (- (3 / 2)), ''WETH/USDC'', [], Fin 3000), 0)"
  by (simp_all add: convert_def row_zero_def row_neg_def sample_float_def sample_int_def)

lemma length_zero_neg [simp]: "length row_zero = 29" "length row_neg = 29"
  by (simp_all add: row_zero_def row_neg_def)

lemma read_rows_zero: "read_rows sample_rt init [row_zero, row_neg] = Inr zero_state"
  by (simp add: process_row_def convert_zero_neg update_def init_def zero_state_def
      fl_gt_def)

lemma kept_spread_zero_neg:
  "kept_spread sample_rt row_zero = Some (Fin 0)"
  "kept_spread sample_rt row_neg = Some (Fin (- (3 / 2)))"
  by (simp_all add: kept_spread_def convert_zero_neg entry_spread_def)

text \<open>
  Claim C10. In both scripts, at every point of the read pass (after any number \<open>n\<close> of
  rows), \<^verbatim>\<open>max_spread_entry\<close> is either \<^verbatim>\<open>None\<close> or one of the rows read so far,
  aggregated with a spread strictly greater than 0. In particular, when every aggregated
  row has a spread of at most 0, \<^verbatim>\<open>max_spread_entry\<close> is \<^verbatim>\<open>None\<close> after the pass, and
  the section on the top spread case prints its title and nothing else.
\<close>

theorem max_spread_entry_none_or_positive:
  "(read_rows rt init (take n rows) = Inr st \<longrightarrow>
      max_spread_entry st = None \<or>
      (\<exists>e s. max_spread_entry st = Some e \<and> e \<in> set (take n rows) \<and>
             kept_spread rt e = Some s \<and> fl_gt s (Fin 0))) \<and>
   (read_rows_new rt init_new (take n rows) = Inr stn \<longrightarrow>
      max_spread_entry stn = None \<or>
      (\<exists>e s. max_spread_entry stn = Some e \<and> e \<in> set (take n rows) \<and>
             kept_spread_new rt e = Some s \<and> fl_gt s (Fin 0))) \<and>
   (read_rows rt init rows = Inr final \<longrightarrow>
      (\<forall>r\<in>set rows. \<forall>s. kept_spread rt r = Some s \<longrightarrow> fl_le s (Fin 0)) \<longrightarrow>
      max_spread_entry final = None \<and>
      top_case rt (max_spread_entry final) = ([TopCaseTitle], None)) \<and>
   (read_rows_new rt init_new rows = Inr finaln \<longrightarrow>
      (\<forall>r\<in>set rows. \<forall>s. kept_spread_new rt r = Some s \<longrightarrow> fl_le s (Fin 0)) \<longrightarrow>
      max_spread_entry finaln = None \<and>
      top_case_new rt (max_spread_entry finaln) = ([TopCaseTitle], None))"
proof (intro conjI impI)
  assume "read_rows rt init (take n rows) = Inr st"
  then show "max_spread_entry st = None \<or>
      (\<exists>e s. max_spread_entry st = Some e \<and> e \<in> set (take n rows) \<and>
             kept_spread rt e = Some s \<and> fl_gt s (Fin 0))"
    by (rule first_maximum_positive[OF read_rows_first_maximum])
next
  assume "read_rows_new rt init_new (take n rows) = Inr stn"
  then show "max_spread_entry stn = None \<or>
      (\<exists>e s. max_spread_entry stn = Some e \<and> e \<in> set (take n rows) \<and>
             kept_spread_new rt e = Some s \<and> fl_gt s (Fin 0))"
    by (rule first_maximum_positive[OF read_rows_new_first_maximum])
next
  assume a: "read_rows rt init rows = Inr final"
    and b: "\<forall>r\<in>set rows. \<forall>s. kept_spread rt r = Some s \<longrightarrow> fl_le s (Fin 0)"
  show n: "max_spread_entry final = None"
    using first_maximum_none[OF read_rows_first_maximum[OF a] b] .
  show "top_case rt (max_spread_entry final) = ([TopCaseTitle], None)"
    by (simp add: n top_case_None)
next
  assume a: "read_rows_new rt init_new rows = Inr finaln"
    and b: "\<forall>r\<in>set rows. \<forall>s. kept_spread_new rt r = Some s \<longrightarrow> fl_le s (Fin 0)"
  show n: "max_spread_entry finaln = None"
    using first_maximum_none[OF read_rows_new_first_maximum[OF a] b] .
  show "top_case_new rt (max_spread_entry finaln) = ([TopCaseTitle], None)"
    by (simp add: n top_case_new_None)
qed

text \<open>
  The theorem on two rows with the spreads 0 and -1.5: both are aggregated, so records
  exist, and no row is recorded as the maximum.
\<close>

theorem max_spread_entry_none_or_positive_witness:
  "read_rows sample_rt init [row_zero, row_neg] = Inr zero_state \<and>
   kept_spread sample_rt row_zero = Some (Fin 0) \<and>
   kept_spread sample_rt row_neg = Some (Fin (- (3 / 2))) \<and>
   fl_le (Fin 0) (Fin 0) \<and> fl_le (Fin (- (3 / 2))) (Fin 0) \<and>
   spreads zero_state = [Fin 0, Fin (- (3 / 2))] \<and>
   max_spread_entry zero_state = None \<and>
   top_case sample_rt (max_spread_entry zero_state) = ([TopCaseTitle], None)"
proof -
  have le: "fl_le (Fin 0) (Fin 0)" "fl_le (Fin (- (3 / 2))) (Fin 0)"
    by (simp_all add: fl_le_def)
  have all: "\<forall>r\<in>set [row_zero, row_neg]. \<forall>s. kept_spread sample_rt r = Some s \<longrightarrow>
      fl_le s (Fin 0)"
    using le by (auto simp: kept_spread_zero_neg)
  from max_spread_entry_none_or_positive[where rt = sample_rt and rows = "[row_zero, row_neg]"
      and final = zero_state]
    read_rows_zero all
  have "max_spread_entry zero_state = None \<and>
      top_case sample_rt (max_spread_entry zero_state) = ([TopCaseTitle], None)"
    by blast
  moreover have "spreads zero_state = [Fin 0, Fin (- (3 / 2))]"
    by (simp add: zero_state_def)
  ultimately show ?thesis using le read_rows_zero kept_spread_zero_neg by blast
qed

section \<open>The spread distribution (claim C5)\<close>

lemma count_spread_find:
  "count_spread ranges c s =
     (case find (in_bucket s) ranges of None \<Rightarrow> Inr c | Some b \<Rightarrow> dict_incr (fst b) c)"
proof (induction ranges)
  case Nil
  show ?case by simp
next
  case (Cons b ranges)
  obtain label low high where b: "b = (label, low, high)" by (cases b)
  show ?case by (simp add: b in_bucket_def Cons.IH)
qed

lemma count_spread_bucket_of:
  "count_spread ranges c s =
     (case bucket_of ranges s of None \<Rightarrow> Inr c | Some l \<Rightarrow> dict_incr l c)"
  by (simp add: count_spread_find bucket_of_def split: option.split)

lemma bucket_of_label: "bucket_of ranges s = Some l \<Longrightarrow> l \<in> fst ` set ranges"
  unfolding bucket_of_def by (induction ranges) (auto split: if_splits)

lemma bucket_of_None_iff: "bucket_of ranges s = None \<longleftrightarrow> \<not> (\<exists>b\<in>set ranges. in_bucket s b)"
  by (auto simp: bucket_of_def find_None_iff)

lemma count_spreads_counts:
  assumes "\<forall>l\<in>fst ` set ranges. c l \<noteq> None"
  shows "count_spreads ranges c xs =
     Inr (\<lambda>l. map_option (\<lambda>n. n + length (filter (\<lambda>s. bucket_of ranges s = Some l) xs)) (c l))"
  using assms
proof (induction xs arbitrary: c)
  case Nil
  have "(\<lambda>l. map_option (\<lambda>n. n) (c l)) = c" by (simp add: fun_eq_iff option.map_ident)
  then show ?case by simp
next
  case (Cons s xs)
  show ?case
  proof (cases "bucket_of ranges s")
    case None
    then have "count_spread ranges c s = Inr c" by (simp add: count_spread_bucket_of)
    then show ?thesis using Cons.IH[OF Cons.prems] None by simp
  next
    case (Some l)
    then have "l \<in> fst ` set ranges" by (rule bucket_of_label)
    then obtain n where n: "c l = Some n" using Cons.prems by auto
    let ?c = "c(l \<mapsto> n + 1)"
    have step: "count_spread ranges c s = Inr ?c"
      by (simp add: count_spread_bucket_of Some dict_incr_def n)
    have dom: "\<forall>k\<in>fst ` set ranges. ?c k \<noteq> None" using Cons.prems by simp
    have eq: "(\<lambda>k. map_option
            (\<lambda>m. m + length (filter (\<lambda>s. bucket_of ranges s = Some k) xs)) (?c k)) =
          (\<lambda>k. map_option
            (\<lambda>m. m + length (filter (\<lambda>s. bucket_of ranges s = Some k) (s # xs))) (c k))"
      using Some n by (auto simp: fun_eq_iff)
    have "count_spreads ranges c (s # xs) = count_spreads ranges ?c xs"
      by (simp only: count_spreads.simps step and_then_Inr)
    also have "\<dots> = Inr (\<lambda>k. map_option
            (\<lambda>m. m + length (filter (\<lambda>s. bucket_of ranges s = Some k) xs)) (?c k))"
      by (rule Cons.IH[OF dom])
    also have "\<dots> = Inr (\<lambda>k. map_option
            (\<lambda>m. m + length (filter (\<lambda>s. bucket_of ranges s = Some k) (s # xs))) (c k))"
      by (simp only: eq)
    finally show ?thesis .
  qed
qed

lemma zero_counts_label:
  "l \<in> fst ` set ranges \<Longrightarrow> zero_counts ranges l = Some 0"
  unfolding zero_counts_def by (induction ranges) auto

lemma distribution_counts:
  "distribution ranges xs =
     Inr (\<lambda>l. map_option (\<lambda>n. n + length (filter (\<lambda>s. bucket_of ranges s = Some l) xs))
               (zero_counts ranges l))"
  unfolding distribution_def
  by (rule count_spreads_counts) (simp add: zero_counts_label)

lemma sections_map_say: "sections (map (\<lambda>x. say [f x]) xs) = say (map f xs)"
  by (induction xs) (simp_all add: say_def)

lemma histogram_eq:
  "histogram ranges xs =
     say (HistTitle (length xs) #
          map (\<lambda>b. HistLine (fst b)
                 (length (filter (\<lambda>s. bucket_of ranges s = Some (fst b)) xs))) ranges)"
proof -
  let ?n = "\<lambda>l. length (filter (\<lambda>s. bucket_of ranges s = Some l) xs)"
  let ?counts = "\<lambda>l. map_option (\<lambda>n. n + ?n l) (zero_counts ranges l)"
  have line: "(case b of (label, low, high) \<Rightarrow>
        compute (lookup ?counts label) (\<lambda>count. say [HistLine label count])) =
      say [HistLine (fst b) (?n (fst b))]" if "b \<in> set ranges" for b
  proof -
    obtain label low high where b: "b = (label, low, high)" by (cases b)
    have "label \<in> fst ` set ranges" using that b by force
    then have "lookup ?counts label = Inr (?n label)"
      by (simp add: lookup_def zero_counts_label)
    then show ?thesis by (simp add: b)
  qed
  have maps: "map (\<lambda>(label, low, high).
          compute (lookup ?counts label) (\<lambda>count. say [HistLine label count])) ranges =
        map (\<lambda>b. say [HistLine (fst b) (?n (fst b))]) ranges"
    using line by (intro map_cong) auto
  have "histogram ranges xs =
      sections (say [HistTitle (length xs)] #
        map (\<lambda>(label, low, high).
          compute (lookup ?counts label) (\<lambda>count. say [HistLine label count])) ranges)"
    by (simp only: histogram_def distribution_counts compute_simps)
  also have "\<dots> = sections (say [HistTitle (length xs)] #
        map (\<lambda>b. say [HistLine (fst b) (?n (fst b))]) ranges)"
    by (simp only: maps)
  also have "\<dots> = say (HistTitle (length xs) # map (\<lambda>b. HistLine (fst b) (?n (fst b))) ranges)"
    by (simp only: sections_say sections_map_say) (simp add: say_def)
  finally show ?thesis .
qed

lemma sum_indicator:
  "distinct (map fst ranges) \<Longrightarrow>
   sum_list (map (\<lambda>b. if l = fst b then (1::nat) else 0) ranges) =
     (if l \<in> fst ` set ranges then 1 else 0)"
  by (induction ranges) (auto simp: image_iff)

lemma sum_bucket_indicator:
  assumes "distinct (map fst ranges)"
  shows "sum_list (map (\<lambda>b. if bucket_of ranges s = Some (fst b) then (1::nat) else 0) ranges) =
     (if \<exists>b\<in>set ranges. in_bucket s b then 1 else 0)"
proof (cases "bucket_of ranges s")
  case None
  then show ?thesis using bucket_of_None_iff[of ranges s] by simp
next
  case (Some l)
  then have "l \<in> fst ` set ranges" by (rule bucket_of_label)
  moreover have "\<exists>b\<in>set ranges. in_bucket s b"
    using Some bucket_of_None_iff[of ranges s] by simp
  ultimately show ?thesis using sum_indicator[OF assms, of l] Some by simp
qed

lemma sum_bucket_counts:
  assumes "distinct (map fst ranges)"
  shows "sum_list (bucket_counts ranges xs) =
     length (filter (\<lambda>s. \<exists>b\<in>set ranges. in_bucket s b) xs)"
proof (induction xs)
  case Nil
  show ?case by (simp add: bucket_counts_def)
next
  case (Cons s xs)
  have e: "length (filter (\<lambda>s. bucket_of ranges s = Some (fst b)) (s # xs)) =
      (if bucket_of ranges s = Some (fst b) then 1 else 0) +
      length (filter (\<lambda>s. bucket_of ranges s = Some (fst b)) xs)" for b
    by simp
  have "sum_list (bucket_counts ranges (s # xs)) =
      sum_list (map (\<lambda>b. if bucket_of ranges s = Some (fst b) then (1::nat) else 0) ranges) +
      sum_list (bucket_counts ranges xs)"
    unfolding bucket_counts_def by (simp only: e sum_list_addf)
  then show ?case using Cons.IH sum_bucket_indicator[OF assms, of s] by simp
qed

lemma distinct_labels:
  "distinct (map fst spread_ranges)" "distinct (map fst spread_ranges_new)"
  by (simp_all add: spread_ranges_def spread_ranges_new_def)

lemma fl_le_lt_False: "fl_le a b \<Longrightarrow> fl_lt b a \<Longrightarrow> False"
  by (cases a; cases b) (auto simp: fl_le_def)

lemma fl_lt_le_trans: "fl_lt a b \<Longrightarrow> fl_le b c \<Longrightarrow> fl_lt a c"
  by (cases a; cases b; cases c) (auto simp: fl_le_def)

lemma outside_bucket:
  assumes "fl_le (Fin 0) low" "fl_le high (Fin 999)"
    and "fl_lt s (Fin 0) \<or> fl_ge s (Fin 999)"
  shows "\<not> in_bucket s (label, low, high)"
proof
  assume "in_bucket s (label, low, high)"
  then have b: "fl_le low s" "fl_lt s high" by (simp_all add: in_bucket_def)
  from assms(3) show False
  proof
    assume "fl_lt s (Fin 0)"
    moreover have "fl_le (Fin 0) s" using assms(1) b(1) by (rule fl_le_trans)
    ultimately show False using fl_le_lt_False by blast
  next
    assume "fl_ge s (Fin 999)"
    then have "fl_le (Fin 999) s" by (simp add: fl_ge_def)
    moreover have "fl_lt s (Fin 999)" using b(2) assms(2) by (rule fl_lt_le_trans)
    ultimately show False using fl_le_lt_False by blast
  qed
qed

lemma bounds_spread_ranges:
  "\<forall>b\<in>set spread_ranges. fl_le (Fin 0) (fst (snd b)) \<and> fl_le (snd (snd b)) (Fin 999)"
  "\<forall>b\<in>set spread_ranges_new. fl_le (Fin 0) (fst (snd b)) \<and> fl_le (snd (snd b)) (Fin 999)"
  by (simp_all add: spread_ranges_def spread_ranges_new_def fl_le_def
      lit_0_1_def lit_0_17_def lit_0_2_def lit_0_3_def lit_0_4_def lit_0_5_def)

lemma outside_ranges:
  assumes "\<forall>b\<in>set ranges. fl_le (Fin 0) (fst (snd b)) \<and> fl_le (snd (snd b)) (Fin 999)"
    and "fl_lt s (Fin 0) \<or> fl_ge s (Fin 999)"
  shows "\<not> (\<exists>b\<in>set ranges. in_bucket s b)"
proof
  assume "\<exists>b\<in>set ranges. in_bucket s b"
  then obtain b where b: "b \<in> set ranges" "in_bucket s b" by blast
  obtain label low high where e: "b = (label, low, high)" by (cases b)
  have "fl_le (Fin 0) low" "fl_le high (Fin 999)" using assms(1) b(1) e by auto
  from outside_bucket[OF this assms(2)] b(2) e show False by simp
qed

lemma distribution_skip:
  assumes "\<not> (\<exists>b\<in>set ranges. in_bucket s b)"
  shows "distribution ranges (s # xs) = distribution ranges xs"
proof -
  have "bucket_of ranges s = None" using assms by (simp add: bucket_of_None_iff)
  then show ?thesis by (simp add: distribution_def count_spread_bucket_of)
qed

text \<open>
  Claim C5. In both scripts the counting loops never raise; the count printed for a
  bucket is the number of spreads whose first matching bucket, in the order of the list,
  it is, the buckets being the half-open intervals \<^verbatim>\<open>low <= s < high\<close>. So a spread
  is counted at most once: the counts add up to the number of spreads that lie in some
  bucket, which is at most the number of spreads, and equals it when every spread lies in
  a bucket. A spread below 0, the floor of the first bucket, or at or above 999, the
  ceiling of the last one, lies in no bucket and leaves every count as it was.
\<close>

theorem spread_distribution_counts:
  assumes "ranges = spread_ranges \<or> ranges = spread_ranges_new"
  shows "\<exists>counts.
     distribution ranges xs = Inr counts \<and>
     map (\<lambda>b. counts (fst b)) ranges = map Some (bucket_counts ranges xs) \<and>
     histogram ranges xs =
       say (HistTitle (length xs) #
            map (\<lambda>b. HistLine (fst b)
                   (length (filter (\<lambda>s. bucket_of ranges s = Some (fst b)) xs))) ranges) \<and>
     sum_list (bucket_counts ranges xs) =
       length (filter (\<lambda>s. \<exists>b\<in>set ranges. in_bucket s b) xs) \<and>
     sum_list (bucket_counts ranges xs) \<le> length xs \<and>
     ((\<forall>s\<in>set xs. \<exists>b\<in>set ranges. in_bucket s b) \<longrightarrow>
        sum_list (bucket_counts ranges xs) = length xs) \<and>
     (\<forall>s. fl_lt s (Fin 0) \<or> fl_ge s (Fin 999) \<longrightarrow>
        (\<forall>b\<in>set ranges. \<not> in_bucket s b) \<and>
        distribution ranges (s # xs) = distribution ranges xs)"
proof -
  let ?counts = "\<lambda>l. map_option
      (\<lambda>n. n + length (filter (\<lambda>s. bucket_of ranges s = Some l) xs)) (zero_counts ranges l)"
  have d: "distinct (map fst ranges)" using assms distinct_labels by blast
  have bounds: "\<forall>b\<in>set ranges. fl_le (Fin 0) (fst (snd b)) \<and> fl_le (snd (snd b)) (Fin 999)"
    using assms bounds_spread_ranges by blast
  have run: "distribution ranges xs = Inr ?counts" by (rule distribution_counts)
  have each: "map (\<lambda>b. ?counts (fst b)) ranges = map Some (bucket_counts ranges xs)"
    by (simp add: bucket_counts_def zero_counts_label)
  have total: "sum_list (bucket_counts ranges xs) =
      length (filter (\<lambda>s. \<exists>b\<in>set ranges. in_bucket s b) xs)"
    using d by (rule sum_bucket_counts)
  have le: "sum_list (bucket_counts ranges xs) \<le> length xs"
    unfolding total by (rule length_filter_le)
  have full: "sum_list (bucket_counts ranges xs) = length xs"
    if "\<forall>s\<in>set xs. \<exists>b\<in>set ranges. in_bucket s b"
    unfolding total using that by (simp add: filter_True)
  have out: "(\<forall>b\<in>set ranges. \<not> in_bucket s b) \<and>
      distribution ranges (s # xs) = distribution ranges xs"
    if "fl_lt s (Fin 0) \<or> fl_ge s (Fin 999)" for s
  proof -
    have n: "\<not> (\<exists>b\<in>set ranges. in_bucket s b)" using bounds that by (rule outside_ranges)
    then show ?thesis using distribution_skip[OF n] by blast
  qed
  show ?thesis
    apply (rule exI[of _ ?counts])
    apply (intro conjI)
          apply (rule run)
         apply (rule each)
        apply (rule histogram_eq)
       apply (rule total)
      apply (rule le)
     apply (use full in blast)
    apply (use out in blast)
    done
qed

text \<open>
  The theorem on five spreads, of which one is negative, one is 1000 and one is NaN: two
  are counted.
\<close>

theorem spread_distribution_counts_witness:
  "spread_ranges_new = spread_ranges_new \<and>
   histogram spread_ranges_new [Fin (1 / 4), Fin (- (3 / 2)), Fin 1000, NaN, Fin (3 / 4)] =
     say [HistTitle 5, HistLine ''< 0.1%'' 0, HistLine ''0.1~0.17%'' 0,
          HistLine ''0.17~0.2%'' 0, HistLine ''0.2~0.3%'' 1, HistLine ''0.3~0.4%'' 0,
          HistLine ''0.4~0.5%'' 0, HistLine ''>= 0.5%'' 1] \<and>
   sum_list (bucket_counts spread_ranges_new
     [Fin (1 / 4), Fin (- (3 / 2)), Fin 1000, NaN, Fin (3 / 4)]) = 2"
proof -
  let ?xs = "[Fin (1 / 4), Fin (- (3 / 2)), Fin 1000, NaN, Fin (3 / 4)]"
  from spread_distribution_counts[of spread_ranges_new ?xs]
  have h: "histogram spread_ranges_new ?xs =
       say (HistTitle (length ?xs) #
            map (\<lambda>b. HistLine (fst b)
                   (length (filter (\<lambda>s. bucket_of spread_ranges_new s = Some (fst b)) ?xs)))
              spread_ranges_new)"
    by blast
  have c: "bucket_counts spread_ranges_new ?xs = [0, 0, 0, 1, 0, 0, 1]"
    by (simp add: bucket_counts_def bucket_of_def spread_ranges_new_def in_bucket_def
        fl_le_def lit_0_1_def lit_0_17_def lit_0_2_def lit_0_3_def lit_0_4_def lit_0_5_def)
  have "histogram spread_ranges_new ?xs =
     say [HistTitle 5, HistLine ''< 0.1%'' 0, HistLine ''0.1~0.17%'' 0,
          HistLine ''0.17~0.2%'' 0, HistLine ''0.2~0.3%'' 1, HistLine ''0.3~0.4%'' 0,
          HistLine ''0.4~0.5%'' 0, HistLine ''>= 0.5%'' 1]"
    unfolding h
    by (simp add: bucket_of_def spread_ranges_new_def in_bucket_def
        fl_le_def lit_0_1_def lit_0_17_def lit_0_2_def lit_0_3_def lit_0_4_def lit_0_5_def)
       (simp add: eval_nat_numeral)
  with c show ?thesis by simp
qed

end
